theory Spec2Isabelle
  imports Main
begin

section \<open>The board engine of script.js\<close>

text \<open>
  A shallow embedding of the simulation functions of \<^verbatim>\<open>src/script.js\<close>.
  A board is an array of columns, a column an array of numbers (index 0 is the top
  row); a tile is a pair of integers and a floating group an object with the fields
  \<^verbatim>\<open>value\<close>, \<^verbatim>\<open>x\<close> and \<^verbatim>\<open>y\<close>.
  Every place where the JavaScript throws is a branch of the model that returns
  \<open>Inl\<close> of the error.
\<close>

subsection \<open>Data\<close>

type_synonym tile = "int \<times> int"
type_synonym cells = "int list"
type_synonym grid = "cells list"

datatype error = TypeError | RangeError

text \<open>The keys the keydown listener pushes to \<^verbatim>\<open>userActions\<close>: the four values of \<^verbatim>\<open>actions\<close>.\<close>

datatype action = ArrowLeft | ArrowRight | ArrowDown | ArrowUp

text \<open>
  The floating group \<^verbatim>\<open>{ value, x, y }\<close>. The fields carry a prefix, the bare names being
  needed for variables.
\<close>

record tfloat =
  float_value :: "tile list"
  float_x :: int
  float_y :: int

text \<open>
  The values an entry of the object \<^verbatim>\<open>lastIndexes\<close> of \<^verbatim>\<open>dropFloatingTiles\<close> can
  hold: a key that was never written reads \<^verbatim>\<open>undefined\<close> (\<open>None\<close> in the map), and
  \<^verbatim>\<open>undefined - 1\<close> is \<^verbatim>\<open>NaN\<close>.
\<close>

datatype jsnum = NaN | Num int

text \<open>
  The mutable variables of the closure: the queue \<^verbatim>\<open>userActions\<close>, \<^verbatim>\<open>boardHighlight\<close>,
  \<^verbatim>\<open>board\<close> and \<^verbatim>\<open>float\<close>.
\<close>

record closure =
  userActions :: "action list"
  boardHighlight :: grid
  board :: grid
  float :: "tfloat option"

subsection \<open>Arrays\<close>

text \<open>\<^verbatim>\<open>arr[i]\<close> for an integer \<open>i\<close>: \<open>None\<close> is \<^verbatim>\<open>undefined\<close>.\<close>

definition at :: "'a list \<Rightarrow> int \<Rightarrow> 'a option" where
  "at xs i = (if 0 \<le> i \<and> i < int (length xs) then Some (xs ! nat i) else None)"

text \<open>\<^verbatim>\<open>arr.lastIndexOf(v)\<close>: the highest index holding \<open>v\<close>, and \<open>-1\<close> when there is none.\<close>

primrec lastIndexOf :: "'a list \<Rightarrow> 'a \<Rightarrow> int" where
  "lastIndexOf [] v = - 1"
| "lastIndexOf (c # cs) v =
     (let r = lastIndexOf cs v in if 0 \<le> r then r + 1 else if c = v then 0 else - 1)"

text \<open>\<^verbatim>\<open>arr.filter((_, i) => p(i))\<close>: the elements whose index satisfies \<open>p\<close>, in order.\<close>

definition filterIndex :: "(int \<Rightarrow> bool) \<Rightarrow> 'a list \<Rightarrow> 'a list" where
  "filterIndex p xs = map fst (filter (\<lambda>(c, i). p (int i)) (zip xs [0..<length xs]))"

text \<open>
  \<^verbatim>\<open>arr.forEach\<close> with a callback that may throw, threading the variables the callback
  writes; \<^verbatim>\<open>arr.some\<close> with a callback that may throw (it stops at the first true).
\<close>

fun forEachE :: "('s \<Rightarrow> 'a \<Rightarrow> error + 's) \<Rightarrow> 'a list \<Rightarrow> 's \<Rightarrow> error + 's" where
  "forEachE f [] s = Inr s"
| "forEachE f (a # as) s = (case f s a of Inl e \<Rightarrow> Inl e | Inr s' \<Rightarrow> forEachE f as s')"

fun someE :: "('a \<Rightarrow> error + bool) \<Rightarrow> 'a list \<Rightarrow> error + bool" where
  "someE p [] = Inr False"
| "someE p (a # as) =
     (case p a of Inl e \<Rightarrow> Inl e | Inr t \<Rightarrow> if t then Inr True else someE p as)"

subsection \<open>Boards\<close>

text \<open>\<^verbatim>\<open>newBoard(width, height)\<close> with the default \<^verbatim>\<open>fillCell\<close>.\<close>

definition newBoard :: "nat \<Rightarrow> nat \<Rightarrow> grid" where
  "newBoard width height = replicate width (replicate height 0)"

text \<open>
  \<^verbatim>\<open>cloneBoard\<close>: \<^verbatim>\<open>JSON.parse(JSON.stringify(board))\<close> of arrays of integers is a copy
  with the same elements.
\<close>

definition cloneBoard :: "grid \<Rightarrow> grid" where
  "cloneBoard b = b"

text \<open>\<^verbatim>\<open>isGameOver\<close>: some column has no cell equal to 0.\<close>

definition isGameOver :: "grid \<Rightarrow> bool" where
  "isGameOver b = list_ex (\<lambda>cells. lastIndexOf cells 0 < 0) b"

text \<open>The inner function \<^verbatim>\<open>iterColumn\<close> of \<^verbatim>\<open>iterBoard\<close>.\<close>

definition iterColumn :: "cells \<Rightarrow> cells" where
  "iterColumn cells =
     (let lastEmptySpace = lastIndexOf cells 0 in
      if lastEmptySpace < 0 then cells
      else 0 # filterIndex (\<lambda>i. i \<noteq> lastEmptySpace) cells)"

text \<open>
  An assignment \<^verbatim>\<open>arr[i] = v\<close>. Inside the array the element is replaced. At a negative
  index JavaScript adds a property of that name to the array object: no element and not
  the length changes, and \<^verbatim>\<open>forEach\<close>, \<^verbatim>\<open>lastIndexOf\<close>, the spread and
  \<^verbatim>\<open>JSON.stringify\<close> do not see it. An index past the end would lengthen the array; the
  only index written with it is a result of \<^verbatim>\<open>lastIndexOf\<close>, which is below the length
  (\<open>dropCell_reachable\<close> below), and the array is left as it is there.
\<close>

definition setAt :: "'a list \<Rightarrow> int \<Rightarrow> 'a \<Rightarrow> 'a list" where
  "setAt xs i v = (if 0 \<le> i \<and> i < int (length xs) then xs[nat i := v] else xs)"

text \<open>Sequencing of calls that may throw.\<close>

definition bindE :: "error + 'a \<Rightarrow> ('a \<Rightarrow> error + 'b) \<Rightarrow> error + 'b" where
  "bindE r k = (case r of Inl e \<Rightarrow> Inl e | Inr v \<Rightarrow> k v)"

fun mapE :: "('a \<Rightarrow> error + 'b) \<Rightarrow> 'a list \<Rightarrow> error + 'b list" where
  "mapE f [] = Inr []"
| "mapE f (a # as) =
     (case f a of Inl e \<Rightarrow> Inl e
      | Inr v \<Rightarrow> (case mapE f as of Inl e \<Rightarrow> Inl e | Inr vs \<Rightarrow> Inr (v # vs)))"

subsection \<open>Tile groups\<close>

text \<open>
  \<^verbatim>\<open>Math.min(...xs)\<close> and \<^verbatim>\<open>Math.max(...xs)\<close>. Without an argument they are
  \<^verbatim>\<open>Infinity\<close> and \<^verbatim>\<open>-Infinity\<close>: the value \<open>None\<close> here.
\<close>

definition mathMin :: "int list \<Rightarrow> int option" where
  "mathMin xs = (case xs of [] \<Rightarrow> None | a # as \<Rightarrow> Some (fold min as a))"

definition mathMax :: "int list \<Rightarrow> int option" where
  "mathMax xs = (case xs of [] \<Rightarrow> None | a # as \<Rightarrow> Some (fold max as a))"

text \<open>
  \<^verbatim>\<open>getTileGroupWidth\<close> and \<^verbatim>\<open>getTileGroupHeight\<close>: the largest coordinate minus the
  smallest. For the empty group the difference is \<^verbatim>\<open>-Infinity - Infinity = -Infinity\<close>,
  the value \<open>None\<close>.
\<close>

definition getTileGroupWidth :: "tile list \<Rightarrow> int option" where
  "getTileGroupWidth v =
     (let xs = map fst v in
      case (mathMax xs, mathMin xs) of (Some hi, Some lo) \<Rightarrow> Some (hi - lo) | _ \<Rightarrow> None)"

definition getTileGroupHeight :: "tile list \<Rightarrow> int option" where
  "getTileGroupHeight v =
     (let ys = map snd v in
      case (mathMax ys, mathMin ys) of (Some hi, Some lo) \<Rightarrow> Some (hi - lo) | _ \<Rightarrow> None)"

text \<open>
  \<^verbatim>\<open>normaliseTileGroup\<close>; on the empty group the \<^verbatim>\<open>map\<close> has no tile to subtract the
  minima from.
\<close>

definition normaliseTileGroup :: "tile list \<Rightarrow> tile list" where
  "normaliseTileGroup tileGroup =
     (case (mathMin (map fst tileGroup), mathMin (map snd tileGroup)) of
        (Some minX, Some minY) \<Rightarrow> map (\<lambda>tile. (fst tile - minX, snd tile - minY)) tileGroup
      | _ \<Rightarrow> [])"

definition rotateTileGroup :: "tile list \<Rightarrow> tile list" where
  "rotateTileGroup tileGroup = normaliseTileGroup (map (\<lambda>(x, y). (- y, x)) tileGroup)"

subsection \<open>Dropping the floating group\<close>

text \<open>
  The callback of the \<^verbatim>\<open>forEach\<close> in \<^verbatim>\<open>dropFloatingTiles\<close>, on the variables it
  writes: \<^verbatim>\<open>nextBoard\<close> and \<^verbatim>\<open>lastIndexes\<close>. A column outside the board is
  \<^verbatim>\<open>undefined\<close>, and \<^verbatim>\<open>cells.lastIndexOf\<close> (or the assignment to \<^verbatim>\<open>cells[dropIndex]\<close>)
  throws a TypeError. The operator \<^verbatim>\<open>||\<close> takes its right operand when the left one is
  \<^verbatim>\<open>undefined\<close>, \<^verbatim>\<open>NaN\<close> or 0.
\<close>

definition dropCell :: "int \<Rightarrow> grid \<times> (int \<rightharpoonup> jsnum) \<Rightarrow> tile \<Rightarrow> error + grid \<times> (int \<rightharpoonup> jsnum)" where
  "dropCell fx s t =
     (case s of (nextBoard, lastIndexes) \<Rightarrow>
      case t of (x, y) \<Rightarrow>
      (case at nextBoard (x + fx) of
         None \<Rightarrow> Inl TypeError
       | Some cells \<Rightarrow>
           let dropIndex =
                 (case lastIndexes x of
                    Some (Num n) \<Rightarrow> if n \<noteq> 0 then n else lastIndexOf cells 0
                  | _ \<Rightarrow> lastIndexOf cells 0);
               decremented =
                 (case lastIndexes x of Some (Num n) \<Rightarrow> Num (n - 1) | _ \<Rightarrow> NaN)
           in Inr (nextBoard[nat (x + fx) := setAt cells dropIndex 1],
                   lastIndexes(x \<mapsto> decremented))))"

definition dropFloatingTiles :: "grid \<Rightarrow> tfloat option \<Rightarrow> error + grid" where
  "dropFloatingTiles b fo =
     (case fo of
        None \<Rightarrow> Inr (cloneBoard b)
      | Some f \<Rightarrow>
          bindE (forEachE (dropCell (float_x f)) (float_value f) (cloneBoard b, Map.empty))
            (\<lambda>(nextBoard, lastIndexes). Inr nextBoard))"

subsection \<open>Differences, copies and row removal\<close>

text \<open>
  \<^verbatim>\<open>boardDiff\<close>. The result starts as \<^verbatim>\<open>newBoard(boardA.length, boardA[0].length)\<close>,
  which throws on a board without a column. Each cell of \<^verbatim>\<open>boardA\<close> then writes
  \<^verbatim>\<open>Number(cellValue != boardB[x][y])\<close>: a missing column of \<^verbatim>\<open>boardB\<close> throws, a
  missing cell of it is \<^verbatim>\<open>undefined\<close> and differs from every number. The writes go
  through the indices of the column in order, so a column longer than the first one
  lengthens its result one cell at a time.
\<close>

definition diffColumn :: "nat \<Rightarrow> cells \<Rightarrow> cells option \<Rightarrow> error + cells" where
  "diffColumn h column other =
     (case other of
        None \<Rightarrow> if column = [] then Inr (replicate h 0) else Inl TypeError
      | Some oc \<Rightarrow>
          Inr (map (\<lambda>y. if at oc (int y) = Some (column ! y) then 0 else 1) [0..<length column]
               @ replicate (h - length column) 0))"

definition boardDiff :: "grid \<Rightarrow> grid \<Rightarrow> error + grid" where
  "boardDiff boardA boardB =
     (case boardA of
        [] \<Rightarrow> Inl TypeError
      | c0 # _ \<Rightarrow>
          mapE (\<lambda>x. diffColumn (length c0) (boardA ! x) (at boardB (int x))) [0..<length boardA])"

text \<open>
  \<^verbatim>\<open>copyBoardAIntoB\<close>, returning the board that \<^verbatim>\<open>boardB\<close> has become. A cell written
  into a column that \<^verbatim>\<open>boardB\<close> does not have throws.
\<close>

definition copyColumn :: "cells \<Rightarrow> cells \<Rightarrow> cells" where
  "copyColumn column target = column @ drop (length column) target"

fun copyBoardAIntoB :: "grid \<Rightarrow> grid \<Rightarrow> error + grid" where
  "copyBoardAIntoB [] bs = Inr bs"
| "copyBoardAIntoB (a # as) [] = (if a = [] then copyBoardAIntoB as [] else Inl TypeError)"
| "copyBoardAIntoB (a # as) (b # bs) =
     (case copyBoardAIntoB as bs of Inl e \<Rightarrow> Inl e | Inr r \<Rightarrow> Inr (copyColumn a b # r))"

text \<open>
  \<^verbatim>\<open>removeBottomRow(board, count)\<close>. \<^verbatim>\<open>new Array(count)\<close> throws a RangeError
  unless \<open>0 \<le> count < 2\<^sup>3\<^sup>2\<close>; \<^verbatim>\<open>cells.slice(0, -count)\<close> keeps the first
  \<open>length - count\<close> cells, and is empty for \<open>count = 0\<close> (\<^verbatim>\<open>-0\<close> is the index 0).
  A board without columns never calls \<^verbatim>\<open>removeLastCell\<close>.
\<close>

definition removeLastCell :: "int \<Rightarrow> cells \<Rightarrow> cells" where
  "removeLastCell count cells =
     replicate (nat count) 0 @ (if count = 0 then [] else take (length cells - nat count) cells)"

definition removeBottomRow :: "grid \<Rightarrow> int \<Rightarrow> error + grid" where
  "removeBottomRow b count =
     (if b = [] then Inr []
      else if count < 0 \<or> 4294967295 < count then Inl RangeError
      else Inr (map (removeLastCell count) b))"

text \<open>
  \<^verbatim>\<open>getBottomContiguous\<close>: the outer loop from \<open>i\<close> on; the inner loop returns \<open>i\<close>
  when some column has a falsy cell (0 or \<^verbatim>\<open>undefined\<close>) in row \<open>height - i - 1\<close>.
\<close>

function bottomLoop :: "grid \<Rightarrow> nat \<Rightarrow> nat \<Rightarrow> nat \<Rightarrow> nat" where
  "bottomLoop b height i count =
     (if i < height then
        (if list_ex (\<lambda>column. case at column (int height - int i - 1) of
                                 None \<Rightarrow> True | Some c \<Rightarrow> c = 0) b
         then i
         else bottomLoop b height (i + 1) (i + 1))
      else count)"
  by pat_completeness auto
termination
  by (relation "measure (\<lambda>(b, height, i, count). height - i)") auto

definition getBottomContiguous :: "grid \<Rightarrow> error + nat" where
  "getBottomContiguous b =
     (case b of [] \<Rightarrow> Inl TypeError | c0 # _ \<Rightarrow> Inr (bottomLoop b (length c0) 0 0))"

subsection \<open>One gravity step of the board\<close>

text \<open>
  The callback of \<^verbatim>\<open>some\<close> in \<^verbatim>\<open>iterBoard\<close>: it reads the column of the board given to
  \<^verbatim>\<open>iterBoard\<close> (not of \<^verbatim>\<open>nextBoard\<close>) and throws when the column is not there.
\<close>

definition landsOn :: "grid \<Rightarrow> tfloat \<Rightarrow> tile \<Rightarrow> error + bool" where
  "landsOn b nextFloat t =
     (case t of (x, y) \<Rightarrow>
      (case at b (x + float_x nextFloat) of
         None \<Rightarrow> Inl TypeError
       | Some column \<Rightarrow>
           let nextY = y + float_y nextFloat in
           Inr ((case at column nextY of None \<Rightarrow> False | Some c \<Rightarrow> c \<noteq> 0)
                \<or> nextY = int (length column))))"

definition iterBoard :: "grid \<Rightarrow> tfloat option \<Rightarrow> error + grid \<times> tfloat option" where
  "iterBoard b fo =
     (let nextBoard = map iterColumn b;
          nextFloat = map_option (\<lambda>f. f\<lparr>float_y := float_y f + 1\<rparr>) fo
      in bindE (case nextFloat of
                  None \<Rightarrow> Inr False
                | Some nf \<Rightarrow> someE (landsOn b nf) (float_value nf))
           (\<lambda>shouldDrop.
              if shouldDrop
              then bindE (dropFloatingTiles nextBoard fo) (\<lambda>dropped. Inr (dropped, None))
              else Inr (nextBoard, nextFloat)))"

subsection \<open>Applying the queued actions\<close>

text \<open>
  \<^verbatim>\<open>Math.min(v, limit - size - 1)\<close>, where \<open>extent\<close> is a width or height as above: for
  \<^verbatim>\<open>-Infinity\<close> the bound is \<^verbatim>\<open>Infinity\<close> and the minimum is \<open>v\<close>.
\<close>

definition minLimit :: "int \<Rightarrow> int \<Rightarrow> int option \<Rightarrow> int" where
  "minLimit v limit extent = (case extent of None \<Rightarrow> v | Some w \<Rightarrow> min v (limit - w - 1))"

text \<open>
  The callback of the \<^verbatim>\<open>forEach\<close> in \<^verbatim>\<open>applyActions\<close>, on the variables it writes: the
  local \<^verbatim>\<open>board\<close> and \<^verbatim>\<open>float\<close> and the closure's \<^verbatim>\<open>boardHighlight\<close>. The constants
  \<^verbatim>\<open>boardWidth\<close>, \<^verbatim>\<open>boardHeight\<close> and \<^verbatim>\<open>floatWidth\<close> are computed before the loop.
\<close>

definition applyAction ::
  "int \<Rightarrow> int \<Rightarrow> int option \<Rightarrow> grid \<times> tfloat option \<times> grid \<Rightarrow> action
     \<Rightarrow> error + grid \<times> tfloat option \<times> grid" where
  "applyAction boardWidth boardHeight floatWidth s a =
     (case s of (b, fo, hl) \<Rightarrow>
      (case fo of
         None \<Rightarrow> Inr (b, None, hl)
       | Some f \<Rightarrow>
          (case a of
             ArrowLeft \<Rightarrow> Inr (b, Some (f\<lparr>float_x := max (float_x f - 1) 0\<rparr>), hl)
           | ArrowRight \<Rightarrow>
               Inr (b, Some (f\<lparr>float_x := minLimit (float_x f + 1) boardWidth floatWidth\<rparr>), hl)
           | ArrowDown \<Rightarrow>
               bindE (dropFloatingTiles b (Some f)) (\<lambda>nextBoard.
               bindE (boardDiff b nextBoard) (\<lambda>d.
               bindE (copyBoardAIntoB nextBoard b) (\<lambda>b'. Inr (b', None, d))))
           | ArrowUp \<Rightarrow>
               (let v = rotateTileGroup (float_value f);
                    rotatedFloatWidth = getTileGroupWidth v;
                    rotatedFloatHeight = getTileGroupHeight v
                in Inr (b, Some (f\<lparr>float_value := v,
                                    float_x := minLimit (float_x f) boardWidth rotatedFloatWidth,
                                    float_y := minLimit (float_y f) boardHeight rotatedFloatHeight\<rparr>),
                        hl)))))"

text \<open>
  \<^verbatim>\<open>applyActions(b, f)\<close> in a closure \<open>s\<close>; it returns the pair and the closure it
  leaves. \<^verbatim>\<open>board[0].length\<close> throws on a board without a column. The queue is
  emptied by \<^verbatim>\<open>userActions.splice(0)\<close>, which stands inside \<^verbatim>\<open>if (float)\<close>.
\<close>

definition applyActions ::
  "grid \<Rightarrow> tfloat option \<Rightarrow> closure \<Rightarrow> error + grid \<times> tfloat option \<times> closure" where
  "applyActions b f s =
     (if isGameOver b then Inr (b, f, s)
      else
        (case cloneBoard b of
           [] \<Rightarrow> Inl TypeError
         | c0 # cs \<Rightarrow>
            (let boardWidth = int (length (c0 # cs)); boardHeight = int (length c0) in
             case f of
               None \<Rightarrow> Inr (c0 # cs, None, s)
             | Some fl \<Rightarrow>
                 (let floatWidth = getTileGroupWidth (float_value fl) in
                  bindE (forEachE (applyAction boardWidth boardHeight floatWidth)
                           (userActions s) (c0 # cs, Some fl, boardHighlight s))
                    (\<lambda>(b', f', hl).
                       Inr (b', f', s\<lparr>userActions := [], boardHighlight := hl\<rparr>))))))"

subsection \<open>Rendering\<close>

text \<open>
  \<^verbatim>\<open>renderBoard\<close> and \<^verbatim>\<open>drawBoard\<close> write the page and none of the variables of the
  closure; what they contribute to a step is whether they throw. The assignment
  \<^verbatim>\<open>gameBoard[x + f.x][y + f.y] = 1\<close> throws a TypeError when the column is
  \<^verbatim>\<open>undefined\<close>. Inside the column it replaces the cell, at a negative index it adds a
  property, and past the end it lengthens the array to that index: the cells in between
  are holes, which read as \<^verbatim>\<open>undefined\<close> and which \<^verbatim>\<open>forEach\<close> skips, so that
  \<^verbatim>\<open>drawBoard\<close> treats them as it treats 0; they are 0 here.
\<close>

definition renderWrite :: "cells \<Rightarrow> int \<Rightarrow> cells" where
  "renderWrite column i =
     (if i < 0 then column
      else if i < int (length column) then column[nat i := 1]
      else column @ replicate (nat i - length column) 0 @ [1])"

definition renderCell :: "tfloat \<Rightarrow> grid \<Rightarrow> tile \<Rightarrow> error + grid" where
  "renderCell f gameBoard t =
     (case t of (x, y) \<Rightarrow>
      (case at gameBoard (x + float_x f) of
         None \<Rightarrow> Inl TypeError
       | Some column \<Rightarrow>
           Inr (gameBoard[nat (x + float_x f) := renderWrite column (y + float_y f)])))"

text \<open>
  \<^verbatim>\<open>drawBoard\<close>: \<^verbatim>\<open>getBottomContiguous(gameBoard)\<close> comes first and throws on a board
  without a column. Without the element of the page (\<open>boardWrapper\<close> is false)
  the function returns. Otherwise \<^verbatim>\<open>createCell\<close> reads \<^verbatim>\<open>boardHighlight[x][y]\<close> for
  every occupied cell above \<^verbatim>\<open>bottomIndex\<close>, which throws when the highlight has no
  column \<open>x\<close>.
\<close>

definition drawBoard :: "grid \<Rightarrow> grid \<Rightarrow> bool \<Rightarrow> error + unit" where
  "drawBoard gameBoard bh boardWrapper =
     bindE (getBottomContiguous gameBoard) (\<lambda>score.
       let bottomIndex = int (length (hd gameBoard)) - int score in
       if \<not> boardWrapper then Inr ()
       else if list_ex (\<lambda>x. at bh (int x) = None \<and>
                            list_ex (\<lambda>y. gameBoard ! x ! y \<noteq> 0 \<and> int y < bottomIndex)
                              [0..<length (gameBoard ! x)])
                 [0..<length gameBoard]
            then Inl TypeError
            else Inr ())"

definition renderBoard :: "grid \<Rightarrow> tfloat option \<Rightarrow> grid \<Rightarrow> bool \<Rightarrow> error + unit" where
  "renderBoard b fo bh boardWrapper =
     (case fo of
        None \<Rightarrow> drawBoard (cloneBoard b) bh boardWrapper
      | Some f \<Rightarrow>
          bindE (forEachE (renderCell f) (float_value f) (cloneBoard b))
            (\<lambda>gameBoard. drawBoard gameBoard bh boardWrapper))"

subsection \<open>The game step\<close>

text \<open>
  \<^verbatim>\<open>step(userActionsOnly)\<close> on the closure. The group of \<^verbatim>\<open>newFloat(boardWidth)\<close> comes
  from \<^verbatim>\<open>Math.random\<close>; the float it returns is the argument \<open>fresh\<close>, and
  \<open>boardWrapper\<close> says whether the page has the element that \<^verbatim>\<open>drawBoard\<close> looks up.
  The rows are removed and rendered one after the other as the loop does. The timers
  write none of the four variables. The code suspends at each \<^verbatim>\<open>await delay\<close>, where a
  key press can run a step of its own; the definition is the step that no key press
  interrupts. An error ends the call, and \<open>Inl\<close> does not record what the closure
  holds by then.
\<close>

definition step :: "bool \<Rightarrow> tfloat \<Rightarrow> bool \<Rightarrow> closure \<Rightarrow> error + closure" where
  "step userActionsOnly fresh boardWrapper s =
     (if isGameOver (board s) then Inr s
      else
        (let s0 = (case float s of None \<Rightarrow> s\<lparr>float := Some fresh\<rparr> | Some f \<Rightarrow> s) in
         bindE (applyActions (board s0) (float s0) s0) (\<lambda>(b, f, s1).
           let s2 = s1\<lparr>board := b, float := f\<rparr> in
           bindE (renderBoard b f (boardHighlight s2) boardWrapper) (\<lambda>u.
           if userActionsOnly then Inr s2
           else
             bindE (getBottomContiguous b) (\<lambda>score.
             bindE (forEachE
                      (\<lambda>bd i. bindE (removeBottomRow bd 1) (\<lambda>bd'.
                                bindE (renderBoard bd' f (boardHighlight s2) boardWrapper) (\<lambda>u.
                                  Inr bd')))
                      [0..<score] b) (\<lambda>cleared.
             bindE (iterBoard cleared f) (\<lambda>(nextBoard, nextFloat).
             bindE (boardDiff cleared nextBoard) (\<lambda>hl.
               Inr (s2\<lparr>boardHighlight := hl, board := nextBoard, float := nextFloat\<rparr>)))))))))"

text \<open>The keydown listener, for a key that is one of the four actions.\<close>

definition keydown :: "action \<Rightarrow> tfloat \<Rightarrow> bool \<Rightarrow> closure \<Rightarrow> error + closure" where
  "keydown k fresh boardWrapper s =
     step True fresh boardWrapper (s\<lparr>userActions := userActions s @ [k]\<rparr>)"

subsection \<open>Notions of the specification\<close>

text \<open>
  A cell is occupied when it is not 0. The compacted form of a column, in the words of
  the specification: the empty cells at the low-index end, the occupied cells at the
  high-index end (in the order they had).
\<close>

definition occupied :: "cells \<Rightarrow> nat" where
  "occupied cells = length (filter (\<lambda>c. c \<noteq> 0) cells)"

definition settled :: "cells \<Rightarrow> cells" where
  "settled cells = replicate (length (filter (\<lambda>c. c = 0) cells)) 0 @ filter (\<lambda>c. c \<noteq> 0) cells"

text \<open>The empty cells of a column that still lie below its topmost occupied cell.\<close>

definition gaps :: "cells \<Rightarrow> nat" where
  "gaps cells = length (filter (\<lambda>c. c = 0) (dropWhile (\<lambda>c. c = 0) cells))"

text \<open>
  A tile group of the specification is normalised: its smallest x and its smallest y
  are both 0. Every group the program builds is (\<^verbatim>\<open>randomGroup\<close> and
  \<^verbatim>\<open>rotateTileGroup\<close> end with \<^verbatim>\<open>normaliseTileGroup\<close>).
\<close>

definition normalised :: "tile list \<Rightarrow> bool" where
  "normalised g = (g \<noteq> [] \<and> Min (set (map fst g)) = 0 \<and> Min (set (map snd g)) = 0)"

text \<open>A translation of a group, and the quarter turn \<^verbatim>\<open>([x, y]) => [-y, x]\<close> on its own.\<close>

definition shift :: "int \<Rightarrow> int \<Rightarrow> tile list \<Rightarrow> tile list" where
  "shift a b g = map (\<lambda>tile. (fst tile + a, snd tile + b)) g"

definition quarter :: "tile list \<Rightarrow> tile list" where
  "quarter g = map (\<lambda>(x, y). (- y, x)) g"

text \<open>
  The float lies on the board when each of its cells has a column of the board as its
  target \<^verbatim>\<open>x + float.x\<close>; \<open>aimed fx ts c\<close> counts the cells of \<open>ts\<close> whose target is
  column \<open>c\<close>.
\<close>

definition onBoard :: "grid \<Rightarrow> tfloat \<Rightarrow> bool" where
  "onBoard b f =
     list_all (\<lambda>t. 0 \<le> fst t + float_x f \<and> fst t + float_x f < int (length b)) (float_value f)"

definition aimed :: "int \<Rightarrow> tile list \<Rightarrow> nat \<Rightarrow> nat" where
  "aimed fx ts c = length (filter (\<lambda>t. fst t + fx = int c) ts)"

text \<open>
  The empty rows of a column, the lowest (highest index) first; a column with the given
  rows marked occupied; the number of occupied cells of a board.
\<close>

definition emptyRows :: "cells \<Rightarrow> nat list" where
  "emptyRows cs = rev (filter (\<lambda>r. cs ! r = 0) [0..<length cs])"

definition fillRows :: "cells \<Rightarrow> nat list \<Rightarrow> cells" where
  "fillRows cs rows = fold (\<lambda>r acc. acc[r := 1]) rows cs"

definition occupiedCount :: "grid \<Rightarrow> nat" where
  "occupiedCount b = sum_list (map occupied b)"

text \<open>
  What one call of the callback of \<^verbatim>\<open>dropFloatingTiles\<close> does to its column and to the
  board once \<^verbatim>\<open>dropIndex\<close> is the result of \<^verbatim>\<open>lastIndexOf\<close>, and the states of
  \<^verbatim>\<open>lastIndexes\<close> that the loop reaches: every key written holds \<^verbatim>\<open>NaN\<close>.
\<close>

definition land :: "cells \<Rightarrow> cells" where
  "land cs = setAt cs (lastIndexOf cs 0) 1"

definition dropInto :: "grid \<Rightarrow> nat \<Rightarrow> grid" where
  "dropInto nb c = nb[c := land (nb ! c)]"

definition nanOnly :: "(int \<rightharpoonup> jsnum) \<Rightarrow> bool" where
  "nanOnly li = (\<forall>k. li k = None \<or> li k = Some NaN)"

text \<open>A board of \<open>w\<close> columns of \<open>h\<close> cells each.\<close>

definition dims :: "grid \<Rightarrow> nat \<Rightarrow> nat \<Rightarrow> bool" where
  "dims b w h = (length b = w \<and> list_all (\<lambda>column. length column = h) b)"

text \<open>
  The collision of the specification for the advanced float (its \<^verbatim>\<open>y\<close> one larger): some
  cell lies on an occupied cell of its column of the board, or its row index equals the
  length of the column.
\<close>

definition collision :: "grid \<Rightarrow> tfloat \<Rightarrow> bool" where
  "collision b f =
     list_ex (\<lambda>t. let column = b ! nat (fst t + float_x f); nextY = snd t + (float_y f + 1) in
                   (0 \<le> nextY \<and> nextY < int (length column) \<and> column ! nat nextY \<noteq> 0)
                   \<or> nextY = int (length column))
       (float_value f)"

text \<open>
  The loop of \<^verbatim>\<open>applyActions(b, f)\<close> run on the actions \<open>q\<close> from a state of the
  variables it writes (\<^verbatim>\<open>board\<close>, \<^verbatim>\<open>float\<close>, \<^verbatim>\<open>boardHighlight\<close>), followed by the
  return. The three constants are the ones computed before the loop, from the board
  and the float that \<^verbatim>\<open>applyActions\<close> was given.
\<close>

definition actionsFrom ::
  "grid \<Rightarrow> tfloat \<Rightarrow> closure \<Rightarrow> action list \<Rightarrow> grid \<times> tfloat option \<times> grid
     \<Rightarrow> error + grid \<times> tfloat option \<times> closure" where
  "actionsFrom b f s q st =
     bindE (forEachE (applyAction (int (length b)) (int (length (hd b)))
                        (getTileGroupWidth (float_value f))) q st)
       (\<lambda>(b', f', hl). Inr (b', f', s\<lparr>userActions := [], boardHighlight := hl\<rparr>))"

section \<open>Properties\<close>

subsection \<open>Arrays\<close>

lemma lastIndexOf_range: "- 1 \<le> lastIndexOf xs v \<and> lastIndexOf xs v < int (length xs)"
  by (induction xs) (auto simp: Let_def)

lemma lastIndexOf_neg_iff: "lastIndexOf xs v < 0 \<longleftrightarrow> v \<notin> set xs"
  by (induction xs) (auto simp: Let_def)

lemma lastIndexOf_absent: "v \<notin> set xs \<Longrightarrow> lastIndexOf xs v = - 1"
  using lastIndexOf_neg_iff [of xs v] lastIndexOf_range [of xs v] by arith

lemma lastIndexOf_nth:
  "0 \<le> lastIndexOf xs v \<Longrightarrow> xs ! nat (lastIndexOf xs v) = v"
proof (induction xs)
  case Nil
  then show ?case by simp
next
  case (Cons c cs)
  show ?case
  proof (cases "0 \<le> lastIndexOf cs v")
    case True
    then have "nat (lastIndexOf cs v + 1) = Suc (nat (lastIndexOf cs v))" by simp
    with True Cons.IH show ?thesis by (simp add: Let_def)
  next
    case False
    with Cons.prems show ?thesis by (simp add: Let_def split: if_splits)
  qed
qed

lemma lastIndexOf_last:
  "int j < int (length xs) \<Longrightarrow> lastIndexOf xs v < int j \<Longrightarrow> xs ! j \<noteq> v"
proof (induction xs arbitrary: j)
  case Nil
  then show ?case by simp
next
  case (Cons c cs)
  show ?case
  proof (cases j)
    case 0
    with Cons.prems show ?thesis by (simp add: Let_def split: if_splits)
  next
    case (Suc k)
    with Cons.prems have "lastIndexOf cs v < int k"
      by (simp add: Let_def split: if_splits)
    with Cons.IH [of k] Cons.prems Suc show ?thesis by simp
  qed
qed

lemma filterIndex_nths: "filterIndex p xs = nths xs {i. p (int i)}"
  by (simp add: filterIndex_def nths_def case_prod_unfold)

lemma nths_skip: "nths xs {i. i \<noteq> k} = take k xs @ drop (Suc k) xs"
proof (induction xs arbitrary: k)
  case Nil
  then show ?case by simp
next
  case (Cons a as)
  show ?case
  proof (cases k)
    case 0
    have "nths as {j. Suc j \<noteq> 0} = as" by (simp add: nths_all)
    with 0 show ?thesis by (simp add: nths_Cons)
  next
    case (Suc m)
    with Cons.IH [of m] show ?thesis by (simp add: nths_Cons)
  qed
qed

lemma filterIndex_skip:
  "0 \<le> k \<Longrightarrow> filterIndex (\<lambda>i. i \<noteq> k) xs = take (nat k) xs @ drop (Suc (nat k)) xs"
proof -
  assume k: "0 \<le> k"
  then have "{i. int i \<noteq> k} = {i. i \<noteq> nat k}" by auto
  then show ?thesis by (simp add: filterIndex_nths nths_skip)
qed

lemma lastIndexOf_append:
  "lastIndexOf (xs @ ys) v =
     (if 0 \<le> lastIndexOf ys v then int (length xs) + lastIndexOf ys v else lastIndexOf xs v)"
proof (induction xs)
  case Nil
  have "lastIndexOf ys v = - 1" if "\<not> 0 \<le> lastIndexOf ys v"
    using that lastIndexOf_range [of ys v] by arith
  then show ?case by simp
next
  case (Cons a as)
  then show ?case by (simp add: Let_def)
qed

lemma lastIndexOf_split:
  "v \<notin> set post \<Longrightarrow> lastIndexOf (pre @ v # post) v = int (length pre)"
  by (simp add: lastIndexOf_append lastIndexOf_absent Let_def)

subsection \<open>One compaction step of a column\<close>

lemma iterColumn_full: "0 \<notin> set cells \<Longrightarrow> iterColumn cells = cells"
  by (simp add: iterColumn_def Let_def lastIndexOf_neg_iff)

lemma iterColumn_gap:
  assumes "0 \<le> lastIndexOf cells 0"
  shows "iterColumn cells =
    0 # take (nat (lastIndexOf cells 0)) cells @ drop (Suc (nat (lastIndexOf cells 0))) cells"
  using assms by (simp add: iterColumn_def Let_def filterIndex_skip)

lemma iterColumn_split:
  assumes "0 \<notin> set post"
  shows "iterColumn (pre @ 0 # post) = 0 # pre @ post"
proof -
  have "lastIndexOf (pre @ 0 # post) 0 = int (length pre)"
    using assms by (rule lastIndexOf_split)
  then show ?thesis by (simp add: iterColumn_gap)
qed

lemma length_iterColumn: "length (iterColumn cells) = length cells"
proof (cases "0 \<le> lastIndexOf cells 0")
  case True
  moreover have "nat (lastIndexOf cells 0) < length cells"
    using True lastIndexOf_range [of cells 0] by simp
  ultimately show ?thesis by (simp add: iterColumn_gap)
next
  case False
  then show ?thesis by (simp add: iterColumn_def Let_def)
qed

text \<open>
  C3. One call of \<^verbatim>\<open>iterColumn\<close>: a column without an empty cell is returned as it is;
  otherwise the empty cell at the highest index \<open>k\<close> holding 0 is removed and a 0 is put
  at the top, so the cells above \<open>k\<close> move down by one and the cells below \<open>k\<close> keep
  their index.
\<close>

theorem iterColumn_step:
  "(0 \<notin> set cells \<longrightarrow> iterColumn cells = cells) \<and>
   (0 \<in> set cells \<longrightarrow>
     (\<exists>k. k < length cells \<and> int k = lastIndexOf cells 0 \<and> cells ! k = 0 \<and>
        (\<forall>j. k < j \<and> j < length cells \<longrightarrow> cells ! j \<noteq> 0) \<and>
        iterColumn cells = 0 # take k cells @ drop (Suc k) cells \<and>
        iterColumn cells ! 0 = 0 \<and>
        (\<forall>j. j < k \<longrightarrow> iterColumn cells ! Suc j = cells ! j) \<and>
        (\<forall>j. k < j \<and> j < length cells \<longrightarrow> iterColumn cells ! j = cells ! j)))"
proof (intro conjI impI)
  assume "0 \<notin> set cells"
  then show "iterColumn cells = cells" by (rule iterColumn_full)
next
  assume "0 \<in> set cells"
  then have pos: "0 \<le> lastIndexOf cells 0"
    using lastIndexOf_neg_iff [of cells 0] by auto
  define k where "k = nat (lastIndexOf cells 0)"
  have ik: "int k = lastIndexOf cells 0" using pos by (simp add: k_def)
  have klen: "k < length cells" using ik lastIndexOf_range [of cells 0] by linarith
  have zero: "cells ! k = 0" using lastIndexOf_nth [OF pos] by (simp add: k_def)
  have below: "\<forall>j. k < j \<and> j < length cells \<longrightarrow> cells ! j \<noteq> 0"
  proof (intro allI impI)
    fix j assume j: "k < j \<and> j < length cells"
    then have "int j < int (length cells)" "lastIndexOf cells 0 < int j" using ik by auto
    then show "cells ! j \<noteq> 0" by (rule lastIndexOf_last)
  qed
  have eq: "iterColumn cells = 0 # take k cells @ drop (Suc k) cells"
    using iterColumn_gap [OF pos] by (simp add: k_def)
  have up: "\<forall>j. j < k \<longrightarrow> iterColumn cells ! Suc j = cells ! j"
    using klen by (simp add: eq nth_append)
  have down: "\<forall>j. k < j \<and> j < length cells \<longrightarrow> iterColumn cells ! j = cells ! j"
  proof (intro allI impI)
    fix j assume j: "k < j \<and> j < length cells"
    then obtain i where i: "j = Suc i" by (cases j) auto
    with j have "k \<le> i" by simp
    then have "(take k cells @ drop (Suc k) cells) ! i = cells ! Suc i"
      using klen by (simp add: nth_append min_def)
    then show "iterColumn cells ! j = cells ! j" by (simp add: eq i)
  qed
  show "\<exists>k. k < length cells \<and> int k = lastIndexOf cells 0 \<and> cells ! k = 0 \<and>
        (\<forall>j. k < j \<and> j < length cells \<longrightarrow> cells ! j \<noteq> 0) \<and>
        iterColumn cells = 0 # take k cells @ drop (Suc k) cells \<and>
        iterColumn cells ! 0 = 0 \<and>
        (\<forall>j. j < k \<longrightarrow> iterColumn cells ! Suc j = cells ! j) \<and>
        (\<forall>j. k < j \<and> j < length cells \<longrightarrow> iterColumn cells ! j = cells ! j)"
    using klen ik zero below eq up down by (intro exI [of _ k]) simp
qed

theorem iterColumn_step_witness:
  "0 \<in> set [1, 0, 1, 0, 1 :: int] \<and> iterColumn [1, 0, 1, 0, 1] = [0, 1, 0, 1, 1] \<and>
   0 \<notin> set [1, 1 :: int] \<and> iterColumn [1, 1] = [1, 1]"
proof -
  have a: "0 \<in> set [1, 0, 1, 0, 1 :: int]" by simp
  have b: "0 \<notin> set [1, 1 :: int]" by simp
  have k: "lastIndexOf [1, 0, 1, 0, 1 :: int] 0 = 3" by (simp add: Let_def)
  from iterColumn_step [of "[1, 0, 1, 0, 1]"] a k have
    "\<exists>k. int k = 3 \<and> iterColumn [1, 0, 1, 0, 1] = 0 # take k [1, 0, 1, 0, 1] @ drop (Suc k) [1, 0, 1, 0, 1]"
    by auto
  then obtain k where "int k = 3"
    and e: "iterColumn [1, 0, 1, 0, 1] = 0 # take k [1, 0, 1, 0, 1] @ drop (Suc k) [1, 0, 1, 0, 1]"
    by blast
  then have "k = 3" by simp
  with e have "iterColumn [1, 0, 1, 0, 1] = [0, 1, 0, 1, 1]" by (simp add: numeral_3_eq_3)
  moreover from iterColumn_step [of "[1, 1]"] b have "iterColumn [1, 1] = [1, 1]" by blast
  ultimately show ?thesis using a b by simp
qed

subsection \<open>Iterated compaction of a column\<close>

lemma settled_iterColumn: "settled (iterColumn cells) = settled cells"
proof (cases "0 \<in> set cells")
  case True
  then obtain pre post where sp: "cells = pre @ 0 # post" "0 \<notin> set post"
    by (auto dest: split_list_last)
  then show ?thesis by (simp add: iterColumn_split settled_def)
next
  case False
  then show ?thesis by (simp add: iterColumn_full)
qed

lemma gaps_0_settled: "gaps cells = 0 \<Longrightarrow> settled cells = cells"
proof (induction cells)
  case Nil
  then show ?case by (simp add: settled_def)
next
  case (Cons c cs)
  show ?case
  proof (cases "c = 0")
    case True
    with Cons show ?thesis by (simp add: settled_def gaps_def)
  next
    case False
    with Cons.prems have "filter (\<lambda>c. c = 0) cs = []" by (simp add: gaps_def)
    then have "\<forall>x\<in>set cs. x \<noteq> 0" by (simp add: filter_empty_conv)
    then have "filter (\<lambda>c. c \<noteq> 0) cs = cs" by simp
    with False \<open>filter (\<lambda>c. c = 0) cs = []\<close> show ?thesis by (simp add: settled_def)
  qed
qed

lemma gaps_iterColumn:
  assumes "0 < gaps cells"
  shows "gaps (iterColumn cells) = gaps cells - 1"
proof -
  from assms have "filter (\<lambda>c. c = 0) (dropWhile (\<lambda>c. c = 0) cells) \<noteq> []"
    by (auto simp: gaps_def)
  then have "0 \<in> set (dropWhile (\<lambda>c. c = 0) cells)"
    by (auto simp: filter_empty_conv)
  then have "0 \<in> set cells" by (auto dest: set_dropWhileD)
  then obtain pre post where sp: "cells = pre @ 0 # post" "0 \<notin> set post"
    by (auto dest: split_list_last)
  have pre: "\<exists>x\<in>set pre. x \<noteq> 0"
  proof (rule ccontr)
    assume "\<not> (\<exists>x\<in>set pre. x \<noteq> 0)"
    then have "\<forall>x\<in>set pre. x = 0" by simp
    then have "dropWhile (\<lambda>c. c = 0) (pre @ 0 # post) = dropWhile (\<lambda>c. c = 0) post"
      by (simp add: dropWhile_append2)
    moreover have "filter (\<lambda>c. c = 0) (dropWhile (\<lambda>c. c = 0) post) = []"
      using sp(2) by (auto simp: filter_empty_conv dest: set_dropWhileD)
    ultimately show False using assms sp(1) by (simp add: gaps_def)
  qed
  then obtain x where x: "x \<in> set pre" "x \<noteq> 0" by blast
  then have d: "dropWhile (\<lambda>c. c = 0) (pre @ ys) = dropWhile (\<lambda>c. c = 0) pre @ ys" for ys
    by (simp add: dropWhile_append1)
  have "gaps (iterColumn cells) = gaps (pre @ post)"
    using sp by (simp add: iterColumn_split gaps_def)
  also have "\<dots> = gaps (pre @ 0 # post) - 1"
    by (simp add: gaps_def d)
  finally show ?thesis by (simp add: sp(1))
qed

lemma gaps_le_length: "gaps cells \<le> length cells"
proof -
  have "gaps cells \<le> length (dropWhile (\<lambda>c. c = 0) cells)"
    unfolding gaps_def by (rule length_filter_le)
  also have "\<dots> \<le> length cells" by (rule length_dropWhile_le)
  finally show ?thesis .
qed

lemma iterColumn_pow_gaps: "gaps cells = n \<Longrightarrow> (iterColumn ^^ n) cells = settled cells"
proof (induction n arbitrary: cells)
  case 0
  then show ?case by (simp add: gaps_0_settled)
next
  case (Suc n)
  then have "gaps (iterColumn cells) = n" by (simp add: gaps_iterColumn)
  then have "(iterColumn ^^ n) (iterColumn cells) = settled (iterColumn cells)"
    by (rule Suc.IH)
  then show ?case by (simp add: funpow_swap1 settled_iterColumn)
qed

lemma iterColumn_settled: "iterColumn (settled cells) = settled cells"
proof (cases "filter (\<lambda>c. c = 0) cells")
  case Nil
  then have "0 \<notin> set (settled cells)" by (auto simp: settled_def filter_empty_conv)
  then show ?thesis by (rule iterColumn_full)
next
  case (Cons z zs)
  then have "settled cells = replicate (length zs) 0 @ 0 # filter (\<lambda>c. c \<noteq> 0) cells"
    by (simp add: settled_def replicate_app_Cons_same)
  moreover have "0 \<notin> set (filter (\<lambda>c. c \<noteq> 0) cells)" by simp
  ultimately have "iterColumn (settled cells) = 0 # replicate (length zs) 0 @ filter (\<lambda>c. c \<noteq> 0) cells"
    using iterColumn_split [of "filter (\<lambda>c. c \<noteq> 0) cells" "replicate (length zs) 0"] by simp
  with Cons show ?thesis by (simp add: settled_def)
qed

lemma funpow_fixed: "f x = x \<Longrightarrow> (f ^^ n) x = x"
  by (induction n) simp_all

lemma length_settled: "length (settled cells) = length cells"
  by (simp add: settled_def sum_length_filter_compl)

lemma occupied_settled: "occupied (settled cells) = occupied cells"
  by (simp add: settled_def occupied_def)

text \<open>
  C4. Iterating \<^verbatim>\<open>iterColumn\<close> on a column reaches a fixpoint after at most as many
  steps as the column is long; the fixpoint has every empty cell at the low-index end
  and every occupied cell at the high-index end, and the length and the number of
  occupied cells of the original column.
\<close>

theorem iterColumn_reaches_settled:
  "\<exists>n. n \<le> length cells \<and>
     (\<forall>m. n \<le> m \<longrightarrow> (iterColumn ^^ m) cells = settled cells) \<and>
     iterColumn (settled cells) = settled cells \<and>
     (\<exists>k occ. settled cells = replicate k 0 @ occ \<and> 0 \<notin> set occ) \<and>
     length (settled cells) = length cells \<and>
     occupied (settled cells) = occupied cells"
proof -
  have reach: "\<forall>m. gaps cells \<le> m \<longrightarrow> (iterColumn ^^ m) cells = settled cells"
  proof (intro allI impI)
    fix m assume "gaps cells \<le> m"
    then obtain d where m: "m = d + gaps cells" by (metis le_add_diff_inverse2)
    have "(iterColumn ^^ m) cells = (iterColumn ^^ d) ((iterColumn ^^ gaps cells) cells)"
      by (simp add: m funpow_add)
    also have "\<dots> = (iterColumn ^^ d) (settled cells)"
      by (simp add: iterColumn_pow_gaps)
    also have "\<dots> = settled cells"
      by (rule funpow_fixed) (rule iterColumn_settled)
    finally show "(iterColumn ^^ m) cells = settled cells" .
  qed
  have form: "\<exists>k occ. settled cells = replicate k 0 @ occ \<and> 0 \<notin> set occ"
    by (intro exI [of _ "length (filter (\<lambda>c. c = 0) cells)"]
        exI [of _ "filter (\<lambda>c. c \<noteq> 0) cells"]) (simp add: settled_def)
  show ?thesis
    using gaps_le_length reach iterColumn_settled form length_settled occupied_settled
    by (intro exI [of _ "gaps cells"]) blast
qed

theorem iterColumn_reaches_settled_witness:
  "(iterColumn ^^ 5) [1, 0, 2, 0, 3] = [0, 0, 1, 2, 3] \<and>
   settled [1, 0, 2, 0, 3] = [0, 0, 1, 2, 3]"
proof -
  have s: "settled [1, 0, 2, 0, 3] = [0, 0, 1, 2, 3]"
    by (simp add: settled_def)
  from iterColumn_reaches_settled [of "[1, 0, 2, 0, 3]"]
  obtain n where "n \<le> length [1, 0, 2, 0, 3 :: int]"
    and "\<forall>m. n \<le> m \<longrightarrow> (iterColumn ^^ m) [1, 0, 2, 0, 3] = settled [1, 0, 2, 0, 3]"
    by blast
  then have "(iterColumn ^^ 5) [1, 0, 2, 0, 3] = settled [1, 0, 2, 0, 3]" by simp
  with s show ?thesis by simp
qed

subsection \<open>Rotation of a tile group\<close>

lemma mathMin_Min: "xs \<noteq> [] \<Longrightarrow> mathMin xs = Some (Min (set xs))"
  by (cases xs) (simp_all add: mathMin_def Min.set_eq_fold [symmetric] del: set_simps)

lemma mathMax_Max: "xs \<noteq> [] \<Longrightarrow> mathMax xs = Some (Max (set xs))"
  by (cases xs) (simp_all add: mathMax_def Max.set_eq_fold [symmetric] del: set_simps)

lemma normalise_Nil: "normaliseTileGroup [] = []"
  by (simp add: normaliseTileGroup_def mathMin_def)

lemma normalise_nonempty:
  "g \<noteq> [] \<Longrightarrow> normaliseTileGroup g =
     map (\<lambda>tile. (fst tile - Min (set (map fst g)), snd tile - Min (set (map snd g)))) g"
  by (simp add: normaliseTileGroup_def mathMin_Min)

lemma Min_shift:
  fixes a :: int
  assumes "xs \<noteq> []"
  shows "Min (set (map (\<lambda>x. x + a) xs)) = Min (set xs) + a"
proof -
  have "finite (set xs)" "set xs \<noteq> {}" using assms by simp_all
  from Min_add_commute [OF this, of "\<lambda>x. x" a] show ?thesis by simp
qed

lemma normalise_shift: "normaliseTileGroup (shift a b g) = normaliseTileGroup g"
proof (cases "g = []")
  case True
  then show ?thesis by (simp add: shift_def)
next
  case False
  have fx: "map fst (shift a b g) = map (\<lambda>x. x + a) (map fst g)"
    by (simp add: shift_def comp_def)
  have fy: "map snd (shift a b g) = map (\<lambda>y. y + b) (map snd g)"
    by (simp add: shift_def comp_def)
  have ne: "shift a b g \<noteq> []" using False by (simp add: shift_def)
  have mx: "Min (set (map fst (shift a b g))) = Min (set (map fst g)) + a"
    unfolding fx using False by (intro Min_shift) simp
  have my: "Min (set (map snd (shift a b g))) = Min (set (map snd g)) + b"
    unfolding fy using False by (intro Min_shift) simp
  show ?thesis
    unfolding normalise_nonempty [OF ne] normalise_nonempty [OF False] mx my
    by (simp add: shift_def)
qed

lemma normalise_is_shift: "\<exists>a b. normaliseTileGroup g = shift a b g"
proof (cases "g = []")
  case True
  then show ?thesis by (simp add: shift_def normalise_Nil)
next
  case False
  have "normaliseTileGroup g = shift (- Min (set (map fst g))) (- Min (set (map snd g))) g"
    by (simp add: normalise_nonempty [OF False] shift_def)
  then show ?thesis by blast
qed

lemma quarter_shift: "quarter (shift a b g) = shift (- b) a (quarter g)"
  by (simp add: quarter_def shift_def case_prod_unfold)

lemma rotate_normalise: "rotateTileGroup (normaliseTileGroup g) = rotateTileGroup g"
proof -
  obtain a b where "normaliseTileGroup g = shift a b g"
    using normalise_is_shift by blast
  then show ?thesis
    using quarter_shift [of a b g] normalise_shift [of "- b" a "quarter g"]
    by (simp add: rotateTileGroup_def quarter_def)
qed

lemma quarter_four: "quarter (quarter (quarter (quarter g))) = g"
  by (simp add: quarter_def case_prod_unfold comp_def)

lemma rotate_as_quarter: "rotateTileGroup g = normaliseTileGroup (quarter g)"
  by (simp add: rotateTileGroup_def quarter_def)

lemma rotate_rotate: "rotateTileGroup (rotateTileGroup g) = rotateTileGroup (quarter g)"
  using rotate_normalise [of "quarter g"] by (simp add: rotate_as_quarter)

lemma rotate_four_normalise: "(rotateTileGroup ^^ 4) g = normaliseTileGroup g"
proof -
  have "(rotateTileGroup ^^ 4) g = rotateTileGroup (rotateTileGroup (rotateTileGroup (rotateTileGroup g)))"
    by (simp add: eval_nat_numeral)
  also have "\<dots> = rotateTileGroup (rotateTileGroup (rotateTileGroup (quarter g)))"
    by (simp only: rotate_rotate)
  also have "\<dots> = rotateTileGroup (rotateTileGroup (quarter (quarter g)))"
    by (simp only: rotate_rotate)
  also have "\<dots> = rotateTileGroup (quarter (quarter (quarter g)))"
    by (simp only: rotate_rotate)
  also have "\<dots> = normaliseTileGroup g"
    by (simp only: rotate_as_quarter quarter_four)
  finally show ?thesis .
qed

lemma normalise_normalised: "normalised g \<Longrightarrow> normaliseTileGroup g = g"
  by (simp add: normalised_def normalise_nonempty)

text \<open>
  C6. Four applications of \<^verbatim>\<open>rotateTileGroup\<close> to a tile group (normalised, as the
  groups of the data model are) return the group itself: the same coordinates, even in
  the same order. On any list of coordinates they return its normalisation
  (\<open>rotate_four_normalise\<close>).
\<close>

theorem rotate_four:
  "normalised g \<Longrightarrow> set ((rotateTileGroup ^^ 4) g) = set g \<and> (rotateTileGroup ^^ 4) g = g"
  by (simp add: rotate_four_normalise normalise_normalised)

theorem rotate_four_witness:
  "normalised [(0, 0), (1, 0), (2, 0), (2, 1)] \<and>
   (rotateTileGroup ^^ 4) [(0, 0), (1, 0), (2, 0), (2, 1)] = [(0, 0), (1, 0), (2, 0), (2, 1)]"
proof -
  have n: "normalised [(0, 0), (1, 0), (2, 0), (2, 1)]"
    by (simp add: normalised_def)
  from rotate_four [OF n] n show ?thesis by simp
qed

subsection \<open>Dropping the floating group\<close>

lemma nanOnly_empty: "nanOnly Map.empty"
  by (simp add: nanOnly_def)

lemma nanOnly_upd: "nanOnly li \<Longrightarrow> nanOnly (li(x \<mapsto> NaN))"
  by (simp add: nanOnly_def)

lemma dropCell_reachable:
  assumes "nanOnly li" "0 \<le> x + fx" "x + fx < int (length nb)"
  shows "dropCell fx (nb, li) (x, y) = Inr (dropInto nb (nat (x + fx)), li(x \<mapsto> NaN))"
proof -
  from assms(1) have "li x = None \<or> li x = Some NaN" by (simp add: nanOnly_def)
  then show ?thesis
    using assms(2,3) by (auto simp: dropCell_def at_def dropInto_def land_def Let_def)
qed

lemma dropCell_off:
  assumes "\<not> (0 \<le> x + fx \<and> x + fx < int (length nb))"
  shows "dropCell fx (nb, li) (x, y) = Inl TypeError"
  using assms by (auto simp: dropCell_def at_def)

lemma length_land: "length (land cs) = length cs"
  by (simp add: land_def setAt_def)

lemma length_dropInto: "length (dropInto nb c) = length nb"
  by (simp add: dropInto_def)

lemma forEachE_drop:
  assumes "nanOnly li"
    and "\<forall>t\<in>set ts. 0 \<le> fst t + fx \<and> fst t + fx < int (length nb)"
  shows "\<exists>li'. forEachE (dropCell fx) ts (nb, li) =
           Inr (fold (\<lambda>t acc. dropInto acc (nat (fst t + fx))) ts nb, li')"
  using assms
proof (induction ts arbitrary: nb li)
  case Nil
  then show ?case by simp
next
  case (Cons t ts)
  obtain x y where t: "t = (x, y)" by (cases t)
  from Cons.prems t have r: "0 \<le> x + fx" "x + fx < int (length nb)" by auto
  have s: "dropCell fx (nb, li) t = Inr (dropInto nb (nat (x + fx)), li(x \<mapsto> NaN))"
    unfolding t using Cons.prems(1) r by (rule dropCell_reachable)
  have "\<forall>t\<in>set ts. 0 \<le> fst t + fx \<and> fst t + fx < int (length (dropInto nb (nat (x + fx))))"
    using Cons.prems(2) by (simp add: length_dropInto)
  from Cons.IH [OF nanOnly_upd [OF Cons.prems(1), of x] this]
  obtain li' where "forEachE (dropCell fx) ts (dropInto nb (nat (x + fx)), li(x \<mapsto> NaN)) =
      Inr (fold (\<lambda>t acc. dropInto acc (nat (fst t + fx))) ts (dropInto nb (nat (x + fx))), li')"
    by blast
  with s show ?case by (simp add: t)
qed

lemma length_fold_dropInto:
  "length (fold (\<lambda>t acc. dropInto acc (nat (fst t + fx))) ts nb) = length nb"
  by (induction ts arbitrary: nb) (simp_all add: length_dropInto)

lemma fold_dropInto_nth:
  assumes "c < length nb" and "\<forall>t\<in>set ts. 0 \<le> fst t + fx"
  shows "fold (\<lambda>t acc. dropInto acc (nat (fst t + fx))) ts nb ! c = (land ^^ aimed fx ts c) (nb ! c)"
  using assms
proof (induction ts arbitrary: nb)
  case Nil
  then show ?case by (simp add: aimed_def)
next
  case (Cons t ts)
  let ?nb = "dropInto nb (nat (fst t + fx))"
  have len: "c < length ?nb" using Cons.prems(1) by (simp add: length_dropInto)
  have rest: "\<forall>t\<in>set ts. 0 \<le> fst t + fx" using Cons.prems(2) by simp
  have pos: "0 \<le> fst t + fx" using Cons.prems(2) by simp
  have ih: "fold (\<lambda>t acc. dropInto acc (nat (fst t + fx))) ts ?nb ! c = (land ^^ aimed fx ts c) (?nb ! c)"
    using len rest by (rule Cons.IH)
  show ?case
  proof (cases "fst t + fx = int c")
    case True
    then have "nat (fst t + fx) = c" by simp
    then have "?nb ! c = land (nb ! c)" using Cons.prems(1) by (simp add: dropInto_def)
    moreover have "aimed fx (t # ts) c = Suc (aimed fx ts c)" using True by (simp add: aimed_def)
    ultimately show ?thesis using ih by (simp add: funpow_swap1)
  next
    case False
    with pos have "nat (fst t + fx) \<noteq> c" by auto
    then have "?nb ! c = nb ! c" by (simp add: dropInto_def)
    moreover have "aimed fx (t # ts) c = aimed fx ts c" using False by (simp add: aimed_def)
    ultimately show ?thesis using ih by simp
  qed
qed

lemma land_full: "0 \<notin> set cs \<Longrightarrow> land cs = cs"
  by (simp add: land_def setAt_def lastIndexOf_absent)

lemma land_free:
  assumes "0 \<in> set cs"
  shows "land cs = cs[nat (lastIndexOf cs 0) := 1]"
proof -
  have "0 \<le> lastIndexOf cs 0" using assms lastIndexOf_neg_iff [of cs 0] by auto
  then show ?thesis using lastIndexOf_range [of cs 0] by (simp add: land_def setAt_def)
qed

lemma emptyRows_full:
  assumes "0 \<notin> set cs"
  shows "emptyRows cs = []"
proof -
  have "cs ! r \<noteq> 0" if "r < length cs" for r
    using that assms by (metis nth_mem)
  then show ?thesis by (simp add: emptyRows_def filter_empty_conv)
qed

lemma emptyRows_free:
  assumes "0 \<in> set cs"
  shows "emptyRows cs = nat (lastIndexOf cs 0) # emptyRows (land cs)"
proof -
  define k where "k = nat (lastIndexOf cs 0)"
  have pos: "0 \<le> lastIndexOf cs 0" using assms lastIndexOf_neg_iff [of cs 0] by auto
  have ik: "int k = lastIndexOf cs 0" using pos by (simp add: k_def)
  have klen: "k < length cs" using ik lastIndexOf_range [of cs 0] by linarith
  have zero: "cs ! k = 0" using lastIndexOf_nth [OF pos] by (simp add: k_def)
  have below: "cs ! j \<noteq> 0" if "k < j" "j < length cs" for j
    using that ik by (intro lastIndexOf_last) auto
  have "[0..<k + (length cs - k)] = [0..<k] @ [k..<k + (length cs - k)]"
    by (rule upt_add_eq_append) simp
  then have split: "[0..<length cs] = [0..<k] @ k # [Suc k..<length cs]"
    using klen by (simp add: upt_conv_Cons)
  have hi: "filter (\<lambda>r. cs ! r = 0) [Suc k..<length cs] = []"
    using below by (auto simp: filter_empty_conv)
  have e1: "emptyRows cs = k # rev (filter (\<lambda>r. cs ! r = 0) [0..<k])"
    unfolding emptyRows_def by (subst split) (simp add: zero hi)
  have l: "land cs = cs[k := 1]" using land_free [OF assms] by (simp add: k_def)
  have hi': "filter (\<lambda>r. cs[k := 1] ! r = 0) [Suc k..<length cs] = []"
    using below by (auto simp: filter_empty_conv)
  have lo': "filter (\<lambda>r. cs[k := 1] ! r = 0) [0..<k] = filter (\<lambda>r. cs ! r = 0) [0..<k]"
    by (rule filter_cong) auto
  have e2: "emptyRows (land cs) = rev (filter (\<lambda>r. cs ! r = 0) [0..<k])"
    unfolding emptyRows_def l length_list_update
    by (subst split) (simp add: klen hi' lo')
  show ?thesis using e1 e2 by (simp add: k_def)
qed

lemma land_pow_fill: "(land ^^ n) cs = fillRows cs (take n (emptyRows cs))"
proof (induction n arbitrary: cs)
  case 0
  then show ?case by (simp add: fillRows_def)
next
  case (Suc n)
  have "(land ^^ Suc n) cs = (land ^^ n) (land cs)" by (simp add: funpow_swap1)
  also have "\<dots> = fillRows (land cs) (take n (emptyRows (land cs)))" by (rule Suc.IH)
  also have "\<dots> = fillRows cs (take (Suc n) (emptyRows cs))"
  proof (cases "0 \<in> set cs")
    case True
    then show ?thesis by (simp add: emptyRows_free land_free fillRows_def)
  next
    case False
    then show ?thesis by (simp add: emptyRows_full land_full fillRows_def)
  qed
  finally show ?case .
qed

lemma dropFloatingTiles_columns:
  assumes "onBoard b f"
  shows "\<exists>nb. dropFloatingTiles b (Some f) = Inr nb \<and> length nb = length b \<and>
           (\<forall>c<length b. nb ! c = (land ^^ aimed (float_x f) (float_value f) c) (b ! c))"
proof -
  let ?step = "\<lambda>t acc. dropInto acc (nat (fst t + float_x f))"
  have rng: "\<forall>t\<in>set (float_value f). 0 \<le> fst t + float_x f \<and> fst t + float_x f < int (length b)"
    using assms by (simp add: onBoard_def list_all_iff)
  from forEachE_drop [OF nanOnly_empty rng]
  obtain li' where run: "forEachE (dropCell (float_x f)) (float_value f) (b, Map.empty) =
      Inr (fold ?step (float_value f) b, li')"
    by blast
  have res: "dropFloatingTiles b (Some f) = Inr (fold ?step (float_value f) b)"
    by (simp add: dropFloatingTiles_def cloneBoard_def bindE_def run)
  have cols: "\<forall>c<length b. fold ?step (float_value f) b ! c =
      (land ^^ aimed (float_x f) (float_value f) c) (b ! c)"
    using rng by (intro allI impI fold_dropInto_nth) auto
  show ?thesis using res cols by (simp add: length_fold_dropInto)
qed

lemma dropFloatingTiles_off:
  assumes "\<not> onBoard b f"
  shows "dropFloatingTiles b (Some f) = Inl TypeError"
proof -
  have gen: "\<not> list_all (\<lambda>t. 0 \<le> fst t + fx \<and> fst t + fx < int (length nb)) ts \<Longrightarrow> nanOnly li \<Longrightarrow>
      forEachE (dropCell fx) ts (nb, li) = Inl TypeError" for fx ts nb li
  proof (induction ts arbitrary: nb li)
    case Nil
    then show ?case by simp
  next
    case (Cons t ts)
    obtain x y where t: "t = (x, y)" by (cases t)
    show ?case
    proof (cases "0 \<le> x + fx \<and> x + fx < int (length nb)")
      case True
      then have s: "dropCell fx (nb, li) t = Inr (dropInto nb (nat (x + fx)), li(x \<mapsto> NaN))"
        unfolding t using Cons.prems(2) by (intro dropCell_reachable) auto
      have "\<not> list_all (\<lambda>t. 0 \<le> fst t + fx \<and> fst t + fx < int (length (dropInto nb (nat (x + fx))))) ts"
        using Cons.prems(1) True by (simp add: t length_dropInto)
      then have "forEachE (dropCell fx) ts (dropInto nb (nat (x + fx)), li(x \<mapsto> NaN)) = Inl TypeError"
        using nanOnly_upd [OF Cons.prems(2)] by (rule Cons.IH)
      with s show ?thesis by simp
    next
      case False
      then show ?thesis by (simp add: t dropCell_off)
    qed
  qed
  have "forEachE (dropCell (float_x f)) (float_value f) (b, Map.empty) = Inl TypeError"
    using assms nanOnly_empty by (intro gen) (simp_all add: onBoard_def)
  then show ?thesis by (simp add: dropFloatingTiles_def cloneBoard_def bindE_def)
qed

lemma length_fillRows: "length (fillRows cs rows) = length cs"
  unfolding fillRows_def by (induction rows arbitrary: cs) simp_all

lemma fillRows_other: "r \<notin> set rows \<Longrightarrow> fillRows cs rows ! r = cs ! r"
  unfolding fillRows_def by (induction rows arbitrary: cs) auto

lemma fillRows_hit: "r \<in> set rows \<Longrightarrow> r < length cs \<Longrightarrow> fillRows cs rows ! r = 1"
  unfolding fillRows_def
proof (induction rows arbitrary: cs)
  case Nil
  then show ?case by simp
next
  case (Cons a rows)
  show ?case
  proof (cases "r \<in> set rows")
    case True
    with Cons show ?thesis by simp
  next
    case False
    with Cons.prems have "a = r" by simp
    moreover have "fold (\<lambda>r acc. acc[r := 1]) rows (cs[r := 1]) ! r = cs[r := 1] ! r"
      using fillRows_other [OF False, of "cs[r := 1]"] by (simp add: fillRows_def)
    ultimately show ?thesis using Cons.prems(2) by simp
  qed
qed

lemma set_emptyRows: "set (emptyRows cs) = {r. r < length cs \<and> cs ! r = 0}"
  by (auto simp: emptyRows_def)

lemma occupied_update:
  assumes "k < length cs" "cs ! k = 0"
  shows "occupied (cs[k := 1]) = Suc (occupied cs)"
proof -
  have a: "cs = take k cs @ 0 # drop (Suc k) cs"
    using assms by (metis id_take_nth_drop)
  have b: "cs[k := 1] = take k cs @ 1 # drop (Suc k) cs"
    using assms(1) by (rule upd_conv_take_nth_drop)
  have "occupied (take k cs @ 1 # drop (Suc k) cs) = Suc (occupied (take k cs @ 0 # drop (Suc k) cs))"
    by (simp add: occupied_def)
  with a b show ?thesis by simp
qed

lemma occupied_land_pow:
  "occupied ((land ^^ n) cs) = occupied cs + min n (length (emptyRows cs))"
proof (induction n arbitrary: cs)
  case 0
  then show ?case by simp
next
  case (Suc n)
  have sw: "(land ^^ Suc n) cs = (land ^^ n) (land cs)" by (simp add: funpow_swap1)
  show ?case
  proof (cases "0 \<in> set cs")
    case True
    then have pos: "0 \<le> lastIndexOf cs 0" using lastIndexOf_neg_iff [of cs 0] by auto
    have k: "nat (lastIndexOf cs 0) < length cs"
      using pos lastIndexOf_range [of cs 0] by simp
    have "occupied (land cs) = Suc (occupied cs)"
      using k lastIndexOf_nth [OF pos] by (simp add: land_free [OF True] occupied_update)
    then show ?thesis
      unfolding sw Suc.IH by (simp add: emptyRows_free [OF True])
  next
    case False
    then show ?thesis
      unfolding sw Suc.IH by (simp add: land_full emptyRows_full)
  qed
qed

lemma aimed_total:
  assumes "\<forall>t\<in>set ts. 0 \<le> fst t + fx \<and> fst t + fx < int w"
  shows "(\<Sum>c = 0..<w. aimed fx ts c) = length ts"
  using assms
proof (induction ts)
  case Nil
  then show ?case by (simp add: aimed_def)
next
  case (Cons t ts)
  have r: "0 \<le> fst t + fx" "fst t + fx < int w" using Cons.prems by simp_all
  have one: "(\<Sum>c = 0..<w. if fst t + fx = int c then 1 else 0) = (1::nat)"
  proof -
    have "(\<Sum>c = 0..<w. if fst t + fx = int c then 1 else 0) =
          (\<Sum>c = 0..<w. if nat (fst t + fx) = c then 1 else (0::nat))"
      using r by (intro sum.cong) auto
    also have "\<dots> = 1" using r by simp
    finally show ?thesis .
  qed
  have "(\<Sum>c = 0..<w. aimed fx (t # ts) c) =
        (\<Sum>c = 0..<w. (if fst t + fx = int c then 1 else 0) + aimed fx ts c)"
    by (intro sum.cong) (simp_all add: aimed_def)
  also have "\<dots> = 1 + length ts"
    using Cons one by (simp add: sum.distrib)
  finally show ?case by simp
qed

lemma occupiedCount_sum: "occupiedCount b = (\<Sum>c = 0..<length b. occupied (b ! c))"
proof -
  have "occupiedCount b = (\<Sum>c = 0..<length (map occupied b). map occupied b ! c)"
    unfolding occupiedCount_def by (rule sum_list_sum_nth)
  also have "\<dots> = (\<Sum>c = 0..<length b. occupied (b ! c))"
    by (intro sum.cong) simp_all
  finally show ?thesis .
qed

lemma aimed_earlier:
  assumes "i < length ts" "int c = fst (ts ! i) + fx"
  shows "aimed fx (take i ts) c < aimed fx ts c"
proof -
  have "ts = take i ts @ ts ! i # drop (Suc i) ts"
    using assms(1) by (rule id_take_nth_drop)
  then have "aimed fx ts c = aimed fx (take i ts @ ts ! i # drop (Suc i) ts) c" by simp
  also have "\<dots> = aimed fx (take i ts) c + 1 + aimed fx (drop (Suc i) ts) c"
    using assms(2) by (simp add: aimed_def)
  finally show ?thesis by simp
qed

text \<open>
  C1 (amended). When every cell of the float has a column of the board as its target,
  \<^verbatim>\<open>dropFloatingTiles\<close> returns a board of the same width in which column \<open>c\<close> is
  the old column with its lowest empty rows marked occupied, one for each float cell
  aimed at \<open>c\<close> (as many as the column has): the \<open>i\<close>-th cell of the group lands on
  the empty row that \<open>k\<close> earlier cells of the same column have left as the lowest, so
  cells of one column stack on consecutive empty rows from the bottom-most one upward.
  When no column is aimed at by more cells than it has empty rows, the number of
  occupied cells grows by the number of cells of the group.
\<close>

theorem dropFloatingTiles_stacks:
  assumes "onBoard b f"
  shows "\<exists>nb. dropFloatingTiles b (Some f) = Inr nb \<and> length nb = length b \<and>
     (\<forall>c<length b.
        nb ! c = fillRows (b ! c) (take (aimed (float_x f) (float_value f) c) (emptyRows (b ! c)))) \<and>
     (\<forall>i c k. i < length (float_value f) \<and> int c = fst (float_value f ! i) + float_x f \<and>
        k = aimed (float_x f) (take i (float_value f)) c \<and> k < length (emptyRows (b ! c)) \<longrightarrow>
        b ! c ! (emptyRows (b ! c) ! k) = 0 \<and> nb ! c ! (emptyRows (b ! c) ! k) = 1) \<and>
     ((\<forall>c<length b. aimed (float_x f) (float_value f) c \<le> length (emptyRows (b ! c))) \<longrightarrow>
        occupiedCount nb = occupiedCount b + length (float_value f))"
proof -
  let ?n = "\<lambda>c. aimed (float_x f) (float_value f) c"
  from dropFloatingTiles_columns [OF assms]
  obtain nb where res: "dropFloatingTiles b (Some f) = Inr nb" and len: "length nb = length b"
    and pow: "\<forall>c<length b. nb ! c = (land ^^ ?n c) (b ! c)"
    by blast
  have rng: "\<forall>t\<in>set (float_value f). 0 \<le> fst t + float_x f \<and> fst t + float_x f < int (length b)"
    using assms by (simp add: onBoard_def list_all_iff)
  have cols: "\<forall>c<length b. nb ! c = fillRows (b ! c) (take (?n c) (emptyRows (b ! c)))"
    using pow by (simp add: land_pow_fill)
  have cell: "b ! c ! (emptyRows (b ! c) ! k) = 0 \<and> nb ! c ! (emptyRows (b ! c) ! k) = 1"
    if h: "i < length (float_value f)" "int c = fst (float_value f ! i) + float_x f"
      "k = aimed (float_x f) (take i (float_value f)) c" "k < length (emptyRows (b ! c))"
    for i c k
  proof -
    let ?r = "emptyRows (b ! c) ! k"
    have "float_value f ! i \<in> set (float_value f)" using h(1) by simp
    with rng h(2) have c: "c < length b" by fastforce
    have kn: "k < ?n c" unfolding h(3) using h(1,2) by (rule aimed_earlier)
    have "?r \<in> set (emptyRows (b ! c))" using h(4) by simp
    then have r: "?r < length (b ! c)" "b ! c ! ?r = 0" by (simp_all add: set_emptyRows)
    have "take (?n c) (emptyRows (b ! c)) ! k = ?r" using kn by simp
    moreover have "k < length (take (?n c) (emptyRows (b ! c)))" using kn h(4) by simp
    ultimately have "?r \<in> set (take (?n c) (emptyRows (b ! c)))" by (metis nth_mem)
    then have "fillRows (b ! c) (take (?n c) (emptyRows (b ! c))) ! ?r = 1"
      using r(1) by (rule fillRows_hit)
    with cols c r(2) show ?thesis by simp
  qed
  have count: "occupiedCount nb = occupiedCount b + length (float_value f)"
    if cap: "\<forall>c<length b. ?n c \<le> length (emptyRows (b ! c))"
  proof -
    have "occupiedCount nb = (\<Sum>c = 0..<length b. occupied (nb ! c))"
      by (simp add: occupiedCount_sum len)
    also have "\<dots> = (\<Sum>c = 0..<length b. occupied (b ! c) + ?n c)"
      using pow cap by (intro sum.cong) (simp_all add: occupied_land_pow min_def)
    also have "\<dots> = occupiedCount b + (\<Sum>c = 0..<length b. ?n c)"
      by (simp add: sum.distrib occupiedCount_sum)
    also have "(\<Sum>c = 0..<length b. ?n c) = length (float_value f)"
      using rng by (rule aimed_total)
    finally show ?thesis .
  qed
  show ?thesis
    using res len cols cell count by (intro exI [of _ nb]) blast
qed

theorem dropFloatingTiles_stacks_witness:
  "onBoard [[0, 1, 0], [0, 0, 0]] \<lparr>float_value = [(0, 0), (0, 1), (1, 1)], float_x = 0, float_y = 0\<rparr> \<and>
   dropFloatingTiles [[0, 1, 0], [0, 0, 0]]
      (Some \<lparr>float_value = [(0, 0), (0, 1), (1, 1)], float_x = 0, float_y = 0\<rparr>) =
    Inr [[1, 1, 1], [0, 0, 1]] \<and>
   occupiedCount [[1, 1, 1], [0, 0, 1]] = occupiedCount [[0, 1, 0], [0, 0, 0]] + 3"
proof -
  let ?b = "[[0, 1, 0], [0, 0, 0 :: int]]"
  let ?f = "\<lparr>float_value = [(0, 0), (0, 1), (1, 1)], float_x = 0, float_y = 0\<rparr>"
  have on: "onBoard ?b ?f" by (simp add: onBoard_def)
  have run: "dropFloatingTiles ?b (Some ?f) = Inr [[1, 1, 1], [0, 0, 1]]"
    by (simp add: dropFloatingTiles_def cloneBoard_def bindE_def dropCell_def at_def setAt_def Let_def)
  have e0: "emptyRows [0, 1, 0] = [2, 0]" by (simp add: emptyRows_def eval_nat_numeral)
  have e1: "emptyRows [0, 0, 0] = [2, 1, 0]" by (simp add: emptyRows_def eval_nat_numeral)
  have a0: "aimed 0 [(0, 0), (0, 1), (1, 1)] 0 = 2" by (simp add: aimed_def)
  have a1: "aimed 0 [(0, 0), (0, 1), (1, 1)] (Suc 0) = 1" by (simp add: aimed_def)
  have cap: "\<forall>c<length ?b. aimed (float_x ?f) (float_value ?f) c \<le> length (emptyRows (?b ! c))"
  proof (intro allI impI)
    fix c assume "c < length ?b"
    then have "c = 0 \<or> c = Suc 0" by auto
    then show "aimed (float_x ?f) (float_value ?f) c \<le> length (emptyRows (?b ! c))"
      using e0 e1 a0 a1 by auto
  qed
  from dropFloatingTiles_stacks [OF on]
  obtain nb where a: "dropFloatingTiles ?b (Some ?f) = Inr nb"
    and c: "(\<forall>c<length ?b. aimed (float_x ?f) (float_value ?f) c \<le> length (emptyRows (?b ! c))) \<longrightarrow>
        occupiedCount nb = occupiedCount ?b + length (float_value ?f)"
    by blast
  from a run have "nb = [[1, 1, 1], [0, 0, 1]]" by simp
  with c cap have "occupiedCount [[1, 1, 1], [0, 0, 1]] = occupiedCount ?b + length (float_value ?f)"
    by blast
  with on run show ?thesis by simp
qed

text \<open>
  The claim as stated fails where a column has fewer empty rows than cells aimed at it
  (the count does not grow by the size of the group) and where a target column is not
  on the board (no board is returned).
\<close>

theorem dropFloatingTiles_count_counterexample:
  "dropFloatingTiles [[0, 1]] (Some \<lparr>float_value = [(0, 0), (0, 1)], float_x = 0, float_y = 0\<rparr>) =
     Inr [[1, 1]] \<and>
   occupiedCount [[1, 1]] \<noteq>
     occupiedCount [[0, 1]] + length (float_value \<lparr>float_value = [(0, 0), (0, 1)], float_x = 0, float_y = 0\<rparr>) \<and>
   dropFloatingTiles [[0, 1]] (Some \<lparr>float_value = [(0, 0), (1, 0)], float_x = 0, float_y = 0\<rparr>) =
     Inl TypeError"
  by (simp add: dropFloatingTiles_def cloneBoard_def bindE_def dropCell_def at_def setAt_def Let_def
      occupiedCount_def occupied_def)

lemma land_pow_full: "0 \<notin> set cs \<Longrightarrow> (land ^^ n) cs = cs"
  by (rule funpow_fixed) (rule land_full)

lemma onBoard_filter:
  "onBoard b f \<Longrightarrow> onBoard b (f\<lparr>float_value := filter p (float_value f)\<rparr>)"
  by (simp add: onBoard_def list_all_iff)

lemma aimed_filter:
  assumes "0 \<in> set (b ! c)"
  shows "aimed fx (filter (\<lambda>t. 0 \<in> set (b ! nat (fst t + fx))) ts) c = aimed fx ts c"
proof -
  have "filter (\<lambda>t. fst t + fx = int c) (filter (\<lambda>t. 0 \<in> set (b ! nat (fst t + fx))) ts) =
        filter (\<lambda>t. fst t + fx = int c) ts"
    unfolding filter_filter using assms by (intro filter_cong) auto
  then show ?thesis by (simp add: aimed_def)
qed

text \<open>
  C9. For a float whose target columns are all on the board \<^verbatim>\<open>dropFloatingTiles\<close>
  returns a board (no error). In a target column without an empty cell
  \<^verbatim>\<open>lastIndexOf(0)\<close> is \<open>-1\<close>, the write at index \<open>-1\<close> changes no element, and the
  column comes back as it was; no occupied cell of any column is overwritten; and the
  result is the one the float would give without the cells aimed at full columns:
  those cells are lost.
\<close>

theorem dropFloatingTiles_full_column:
  assumes "onBoard b f"
  shows "\<exists>nb. dropFloatingTiles b (Some f) = Inr nb \<and>
     (\<forall>c<length b. 0 \<notin> set (b ! c) \<longrightarrow>
        lastIndexOf (b ! c) 0 = - 1 \<and> setAt (b ! c) (- 1) 1 = b ! c \<and> nb ! c = b ! c) \<and>
     (\<forall>c<length b. \<forall>r<length (b ! c). b ! c ! r \<noteq> 0 \<longrightarrow> nb ! c ! r = b ! c ! r) \<and>
     dropFloatingTiles b
       (Some (f\<lparr>float_value :=
          filter (\<lambda>t. 0 \<in> set (b ! nat (fst t + float_x f))) (float_value f)\<rparr>)) = Inr nb"
proof -
  let ?n = "\<lambda>c. aimed (float_x f) (float_value f) c"
  let ?g = "f\<lparr>float_value := filter (\<lambda>t. 0 \<in> set (b ! nat (fst t + float_x f))) (float_value f)\<rparr>"
  from dropFloatingTiles_columns [OF assms]
  obtain nb where res: "dropFloatingTiles b (Some f) = Inr nb" and len: "length nb = length b"
    and pow: "\<forall>c<length b. nb ! c = (land ^^ ?n c) (b ! c)"
    by blast
  have full: "\<forall>c<length b. 0 \<notin> set (b ! c) \<longrightarrow>
      lastIndexOf (b ! c) 0 = - 1 \<and> setAt (b ! c) (- 1) 1 = b ! c \<and> nb ! c = b ! c"
    using pow by (simp add: land_pow_full lastIndexOf_absent setAt_def)
  have keep: "\<forall>c<length b. \<forall>r<length (b ! c). b ! c ! r \<noteq> 0 \<longrightarrow> nb ! c ! r = b ! c ! r"
  proof (intro allI impI)
    fix c r assume c: "c < length b" and r: "r < length (b ! c)" and occ: "b ! c ! r \<noteq> 0"
    have "r \<notin> set (emptyRows (b ! c))" using occ by (simp add: set_emptyRows)
    then have "r \<notin> set (take (?n c) (emptyRows (b ! c)))" by (auto dest: in_set_takeD)
    then have "fillRows (b ! c) (take (?n c) (emptyRows (b ! c))) ! r = b ! c ! r"
      by (rule fillRows_other)
    with pow c show "nb ! c ! r = b ! c ! r" by (simp add: land_pow_fill)
  qed
  from dropFloatingTiles_columns [OF onBoard_filter [OF assms]]
  obtain nb' where res': "dropFloatingTiles b (Some ?g) = Inr nb'" and len': "length nb' = length b"
    and pow': "\<forall>c<length b. nb' ! c = (land ^^ aimed (float_x ?g) (float_value ?g) c) (b ! c)"
    by blast
  have "nb' = nb"
  proof (rule nth_equalityI)
    show "length nb' = length nb" using len len' by simp
  next
    fix c assume "c < length nb'"
    then have c: "c < length b" using len' by simp
    show "nb' ! c = nb ! c"
    proof (cases "0 \<in> set (b ! c)")
      case True
      then have "aimed (float_x ?g) (float_value ?g) c = ?n c"
        using aimed_filter [of b c "float_x f" "float_value f"] by simp
      with pow pow' c show ?thesis by simp
    next
      case False
      with pow pow' c show ?thesis by (simp add: land_pow_full)
    qed
  qed
  with res' have "dropFloatingTiles b (Some ?g) = Inr nb" by simp
  with res full keep show ?thesis by blast
qed

theorem dropFloatingTiles_full_column_witness:
  "onBoard [[1, 1], [0, 0]] \<lparr>float_value = [(0, 0), (1, 0)], float_x = 0, float_y = 0\<rparr> \<and>
   0 \<notin> set ([[1, 1], [0, 0 :: int]] ! 0) \<and>
   dropFloatingTiles [[1, 1], [0, 0]] (Some \<lparr>float_value = [(0, 0), (1, 0)], float_x = 0, float_y = 0\<rparr>) =
     Inr [[1, 1], [0, 1]] \<and>
   dropFloatingTiles [[1, 1], [0, 0]] (Some \<lparr>float_value = [(1, 0)], float_x = 0, float_y = 0\<rparr>) =
     Inr [[1, 1], [0, 1]]"
proof -
  let ?b = "[[1, 1], [0, 0 :: int]]"
  let ?f = "\<lparr>float_value = [(0, 0), (1, 0)], float_x = 0, float_y = 0\<rparr>"
  have on: "onBoard ?b ?f" by (simp add: onBoard_def)
  have run: "dropFloatingTiles ?b (Some ?f) = Inr [[1, 1], [0, 1]]"
    by (simp add: dropFloatingTiles_def cloneBoard_def bindE_def dropCell_def at_def setAt_def Let_def)
  have flt: "filter (\<lambda>t. 0 \<in> set (?b ! nat (fst t + float_x ?f))) (float_value ?f) = [(1, 0)]"
    by simp
  from dropFloatingTiles_full_column [OF on]
  obtain nb where a: "dropFloatingTiles ?b (Some ?f) = Inr nb"
    and c: "dropFloatingTiles ?b (Some (?f\<lparr>float_value :=
          filter (\<lambda>t. 0 \<in> set (?b ! nat (fst t + float_x ?f))) (float_value ?f)\<rparr>)) = Inr nb"
    by blast
  from a run have "nb = [[1, 1], [0, 1]]" by simp
  with c flt have "dropFloatingTiles ?b (Some \<lparr>float_value = [(1, 0)], float_x = 0, float_y = 0\<rparr>) =
     Inr [[1, 1], [0, 1]]" by simp
  with on run show ?thesis by simp
qed

subsection \<open>Dimensions and results\<close>

lemma dims_lengths: "map length nb = map length b \<Longrightarrow> dims b w h \<Longrightarrow> dims nb w h"
proof -
  assume eq: "map length nb = map length b" and d: "dims b w h"
  from eq have len: "length nb = length b" by (rule map_eq_imp_length_eq)
  have "set (map length nb) = set (map length b)" using eq by simp
  then have "length ` set nb = length ` set b" by simp
  with d len show ?thesis by (auto simp: dims_def list_all_iff)
qed

lemma length_setAt: "length (setAt xs i v) = length xs"
  by (simp add: setAt_def)

lemma dropCell_lengths:
  assumes "dropCell fx (nb, li) t = Inr (nb', li')"
  shows "map length nb' = map length nb"
proof -
  obtain x y where t: "t = (x, y)" by (cases t)
  from assms obtain cells i where c: "at nb (x + fx) = Some cells"
    and nb': "nb' = nb[nat (x + fx) := setAt cells i 1]"
    unfolding t dropCell_def by (auto simp: Let_def split: option.splits)
  from c have cells: "cells = nb ! nat (x + fx)" and k: "nat (x + fx) < length nb"
    by (auto simp: at_def split: if_splits)
  have "map length nb' = (map length nb)[nat (x + fx) := map length nb ! nat (x + fx)]"
    using k by (simp add: nb' cells map_update length_setAt)
  also have "\<dots> = map length nb" by (rule list_update_id)
  finally show ?thesis .
qed

lemma forEachE_dropCell_lengths:
  "forEachE (dropCell fx) ts (nb, li) = Inr (nb', li') \<Longrightarrow> map length nb' = map length nb"
proof (induction ts arbitrary: nb li)
  case Nil
  then show ?case by simp
next
  case (Cons t ts)
  from Cons.prems obtain nb1 li1 where s: "dropCell fx (nb, li) t = Inr (nb1, li1)"
    and r: "forEachE (dropCell fx) ts (nb1, li1) = Inr (nb', li')"
    by (auto split: sum.splits)
  from Cons.IH [OF r] dropCell_lengths [OF s] show ?case by simp
qed

lemma dropFloatingTiles_lengths:
  assumes "dropFloatingTiles b fo = Inr nb"
  shows "map length nb = map length b"
proof (cases fo)
  case None
  with assms show ?thesis by (simp add: dropFloatingTiles_def cloneBoard_def)
next
  case (Some f)
  with assms obtain li' where
    "forEachE (dropCell (float_x f)) (float_value f) (b, Map.empty) = Inr (nb, li')"
    by (auto simp: dropFloatingTiles_def cloneBoard_def bindE_def split: sum.splits)
  then show ?thesis by (rule forEachE_dropCell_lengths)
qed

lemma map_length_iterColumn: "map length (map iterColumn b) = map length b"
  by (simp add: length_iterColumn comp_def)

lemma iterBoard_lengths:
  assumes "iterBoard b fo = Inr (nb, fo')"
  shows "map length nb = map length b"
proof -
  from assms have "nb = map iterColumn b \<or> dropFloatingTiles (map iterColumn b) fo = Inr nb"
    by (auto simp: iterBoard_def bindE_def Let_def split: sum.splits if_splits)
  then show ?thesis
    using dropFloatingTiles_lengths [of "map iterColumn b" fo nb] map_length_iterColumn [of b]
    by auto
qed

lemma removeBottomRow_dims:
  assumes "dims b w h" "1 \<le> count" "count \<le> int h" "removeBottomRow b count = Inr nb"
  shows "dims nb w h"
proof (cases "b = []")
  case True
  with assms show ?thesis by (simp add: removeBottomRow_def dims_def)
next
  case False
  with assms(4) have nb: "nb = map (removeLastCell count) b"
    by (simp add: removeBottomRow_def split: if_splits)
  have "length (removeLastCell count column) = h" if "length column = h" for column
    using that assms(2,3) by (simp add: removeLastCell_def)
  with assms(1) show ?thesis by (simp add: nb dims_def list_all_iff)
qed

lemma mapE_Inr:
  "mapE g xs = Inr ys \<Longrightarrow> length ys = length xs \<and> (\<forall>i<length xs. g (xs ! i) = Inr (ys ! i))"
proof (induction xs arbitrary: ys)
  case Nil
  then show ?case by simp
next
  case (Cons a as)
  from Cons.prems obtain v vs where v: "g a = Inr v" and vs: "mapE g as = Inr vs" and ys: "ys = v # vs"
    by (auto split: sum.splits)
  from Cons.IH [OF vs] v ys show ?case by (auto simp: nth_Cons split: nat.splits)
qed

lemma mapE_total: "(\<forall>a\<in>set xs. \<exists>v. g a = Inr v) \<Longrightarrow> \<exists>ys. mapE g xs = Inr ys"
  by (induction xs) auto

lemma diffColumn_length:
  "diffColumn h column other = Inr d \<Longrightarrow> length d = max h (length column)"
  by (auto simp: diffColumn_def split: option.splits if_splits)

lemma boardDiff_dims:
  assumes "dims a w h" "boardDiff a b2 = Inr d"
  shows "dims d w h"
proof -
  from assms(2) obtain c0 cs where a: "a = c0 # cs"
    by (cases a) (simp_all add: boardDiff_def)
  let ?g = "\<lambda>x. diffColumn (length c0) (a ! x) (at b2 (int x))"
  from assms(2) have m: "mapE ?g [0..<length a] = Inr d"
    by (simp add: boardDiff_def a)
  from mapE_Inr [OF m] have len: "length d = length a"
    and col: "\<forall>i<length a. ?g i = Inr (d ! i)" by auto
  have h: "length column = h" if "column \<in> set a" for column
    using that assms(1) by (simp add: dims_def list_all_iff)
  have c0: "length c0 = h" using h [of c0] a by simp
  have "length (d ! i) = h" if "i < length d" for i
  proof -
    from that len have i: "i < length a" by simp
    with col have "?g i = Inr (d ! i)" by simp
    from diffColumn_length [OF this] c0 h [of "a ! i"] i show ?thesis by simp
  qed
  then have "\<forall>column\<in>set d. length column = h" by (auto simp: in_set_conv_nth)
  with len assms(1) show ?thesis by (simp add: dims_def list_all_iff)
qed

lemma boardDiff_total:
  assumes "a \<noteq> []" "length a \<le> length b2"
  shows "\<exists>d. boardDiff a b2 = Inr d"
proof -
  from assms(1) obtain c0 cs where a: "a = c0 # cs" by (cases a) auto
  have "\<forall>x\<in>set [0..<length a]. \<exists>v. diffColumn (length c0) (a ! x) (at b2 (int x)) = Inr v"
    using assms(2) by (auto simp: diffColumn_def at_def)
  from mapE_total [OF this] show ?thesis by (simp add: boardDiff_def a)
qed

lemma someE_total: "(\<forall>a\<in>set xs. \<exists>v. p a = Inr v) \<Longrightarrow> \<exists>v. someE p xs = Inr v"
  by (induction xs) auto

lemma someE_iff:
  "(\<forall>a\<in>set xs. \<exists>v. p a = Inr v) \<Longrightarrow> someE p xs = Inr (\<exists>a\<in>set xs. p a = Inr True)"
  by (induction xs) auto

lemma landsOn_total:
  "0 \<le> fst t + float_x nf \<Longrightarrow> fst t + float_x nf < int (length b) \<Longrightarrow> \<exists>v. landsOn b nf t = Inr v"
  by (cases t) (simp add: landsOn_def at_def Let_def)

lemma onBoard_iterColumn: "onBoard (map iterColumn b) f = onBoard b f"
  by (simp add: onBoard_def)

lemma iterBoard_total:
  assumes "case fo of None \<Rightarrow> True | Some f \<Rightarrow> onBoard b f"
  shows "\<exists>nb fo'. iterBoard b fo = Inr (nb, fo')"
proof (cases fo)
  case None
  then show ?thesis by (simp add: iterBoard_def bindE_def)
next
  case (Some f)
  let ?nf = "f\<lparr>float_y := float_y f + 1\<rparr>"
  from assms Some have on: "onBoard b f" by simp
  then have "\<forall>t\<in>set (float_value ?nf). \<exists>v. landsOn b ?nf t = Inr v"
    by (auto simp: onBoard_def list_all_iff intro!: landsOn_total)
  from someE_total [OF this] obtain v where v: "someE (landsOn b ?nf) (float_value ?nf) = Inr v"
    by blast
  from on have "onBoard (map iterColumn b) f" by (simp add: onBoard_iterColumn)
  from dropFloatingTiles_columns [OF this]
  obtain nb where "dropFloatingTiles (map iterColumn b) (Some f) = Inr nb" by blast
  with v Some show ?thesis by (simp add: iterBoard_def bindE_def Let_def)
qed

lemma dropFloatingTiles_total:
  assumes "case fo of None \<Rightarrow> True | Some f \<Rightarrow> onBoard b f"
  shows "\<exists>nb. dropFloatingTiles b fo = Inr nb"
proof (cases fo)
  case None
  then show ?thesis by (simp add: dropFloatingTiles_def)
next
  case (Some f)
  with assms have "onBoard b f" by simp
  from dropFloatingTiles_columns [OF this] Some show ?thesis by blast
qed

lemma removeBottomRow_total:
  "0 \<le> count \<Longrightarrow> count \<le> 4294967295 \<Longrightarrow> \<exists>nb. removeBottomRow b count = Inr nb"
  by (simp add: removeBottomRow_def)

text \<open>
  C10. On a board of \<open>w\<close> columns of \<open>h\<close> cells, every board that \<^verbatim>\<open>iterBoard\<close>,
  \<^verbatim>\<open>dropFloatingTiles\<close>, \<^verbatim>\<open>removeBottomRow\<close> (for \<open>1 \<le> count \<le> h\<close>) and
  \<^verbatim>\<open>boardDiff\<close> return has \<open>w\<close> columns of \<open>h\<close> cells. They do return one: the first
  two when the float is null or lies on the board, the third for a count an array can
  have, the last for a board with a column and a second board of the same shape.
\<close>

theorem dimensions_preserved:
  assumes "dims b w h"
  shows "(\<forall>nb fo'. iterBoard b fo = Inr (nb, fo') \<longrightarrow> dims nb w h) \<and>
     (\<forall>nb. dropFloatingTiles b fo = Inr nb \<longrightarrow> dims nb w h) \<and>
     (\<forall>count nb. 1 \<le> count \<and> count \<le> int h \<and> removeBottomRow b count = Inr nb \<longrightarrow> dims nb w h) \<and>
     (\<forall>b2 d. boardDiff b b2 = Inr d \<longrightarrow> dims d w h) \<and>
     ((case fo of None \<Rightarrow> True | Some f \<Rightarrow> onBoard b f) \<longrightarrow>
        (\<exists>nb fo'. iterBoard b fo = Inr (nb, fo')) \<and> (\<exists>nb. dropFloatingTiles b fo = Inr nb)) \<and>
     (\<forall>count. 1 \<le> count \<and> count \<le> int h \<and> count \<le> 4294967295 \<longrightarrow>
        (\<exists>nb. removeBottomRow b count = Inr nb)) \<and>
     (\<forall>b2. 0 < w \<and> dims b2 w h \<longrightarrow> (\<exists>d. boardDiff b b2 = Inr d))"
proof (intro conjI allI impI)
  fix nb fo' assume "iterBoard b fo = Inr (nb, fo')"
  then have "map length nb = map length b" by (rule iterBoard_lengths)
  then show "dims nb w h" using assms by (rule dims_lengths)
next
  fix nb assume "dropFloatingTiles b fo = Inr nb"
  then have "map length nb = map length b" by (rule dropFloatingTiles_lengths)
  then show "dims nb w h" using assms by (rule dims_lengths)
next
  fix count nb assume "1 \<le> count \<and> count \<le> int h \<and> removeBottomRow b count = Inr nb"
  then show "dims nb w h" using assms by (auto intro: removeBottomRow_dims)
next
  fix b2 d assume "boardDiff b b2 = Inr d"
  with assms show "dims d w h" by (rule boardDiff_dims)
next
  assume "case fo of None \<Rightarrow> True | Some f \<Rightarrow> onBoard b f"
  then show "\<exists>nb fo'. iterBoard b fo = Inr (nb, fo')" by (rule iterBoard_total)
next
  assume "case fo of None \<Rightarrow> True | Some f \<Rightarrow> onBoard b f"
  then show "\<exists>nb. dropFloatingTiles b fo = Inr nb" by (rule dropFloatingTiles_total)
next
  fix count assume "1 \<le> count \<and> count \<le> int h \<and> count \<le> 4294967295"
  then show "\<exists>nb. removeBottomRow b count = Inr nb" by (intro removeBottomRow_total) auto
next
  fix b2 assume "0 < w \<and> dims b2 w h"
  with assms have "b \<noteq> []" "length b \<le> length b2" by (auto simp: dims_def)
  then show "\<exists>d. boardDiff b b2 = Inr d" by (rule boardDiff_total)
qed

theorem dimensions_preserved_witness:
  "dims [[0, 1], [1, 0]] 2 2 \<and>
   iterBoard [[0, 1], [1, 0]] (Some \<lparr>float_value = [(0, 0)], float_x = 0, float_y = 0\<rparr>) =
     Inr ([[1, 1], [0, 1]], None) \<and>
   dims [[1, 1], [0, 1]] 2 2 \<and>
   removeBottomRow [[0, 1], [1, 0]] 1 = Inr [[0, 0], [0, 1]] \<and>
   dims [[0, 0], [0, 1]] 2 2 \<and>
   boardDiff [[0, 1], [1, 0]] [[1, 1], [0, 1]] = Inr [[1, 0], [1, 1]] \<and>
   dims [[1, 0], [1, 1]] 2 2"
proof -
  let ?b = "[[0, 1], [1, 0 :: int]]"
  let ?f = "\<lparr>float_value = [(0, 0)], float_x = 0, float_y = 0\<rparr>"
  have d: "dims ?b 2 2" by (simp add: dims_def)
  have col: "map iterColumn ?b = [[0, 1], [0, 1]]"
    by (simp add: iterColumn_def filterIndex_def Let_def)
  have drop: "dropFloatingTiles [[0, 1], [0, 1]] (Some ?f) = Inr [[1, 1], [0, 1]]"
    by (simp add: dropFloatingTiles_def cloneBoard_def bindE_def dropCell_def at_def setAt_def Let_def)
  have it: "iterBoard ?b (Some ?f) = Inr ([[1, 1], [0, 1]], None)"
    unfolding iterBoard_def Let_def col
    by (simp add: drop bindE_def landsOn_def at_def)
  have rm: "removeBottomRow ?b 1 = Inr [[0, 0], [0, 1]]"
    by (simp add: removeBottomRow_def removeLastCell_def)
  have df: "boardDiff ?b [[1, 1], [0, 1]] = Inr [[1, 0], [1, 1]]"
    by (simp add: boardDiff_def diffColumn_def at_def)
  note t = dimensions_preserved [OF d, of "Some ?f"]
  from t it have a: "dims [[1, 1], [0, 1]] 2 2" by blast
  from t have "(1::int) \<le> 1 \<and> 1 \<le> int 2 \<and> removeBottomRow ?b 1 = Inr [[0, 0], [0, 1]] \<longrightarrow>
      dims [[0, 0], [0, 1]] 2 2" by blast
  with rm have b: "dims [[0, 0], [0, 1]] 2 2" by simp
  from t df have c: "dims [[1, 0], [1, 1]] 2 2" by blast
  from d it a rm b df c show ?thesis by simp
qed

lemma landsOn_on:
  assumes "0 \<le> fst t + float_x nf" "fst t + float_x nf < int (length b)"
  shows "landsOn b nf t =
     Inr (let column = b ! nat (fst t + float_x nf); nextY = snd t + float_y nf in
          (0 \<le> nextY \<and> nextY < int (length column) \<and> column ! nat nextY \<noteq> 0)
          \<or> nextY = int (length column))"
  using assms by (cases t) (auto simp: landsOn_def at_def Let_def)

text \<open>
  C2 (amended). When the advanced float collides, \<^verbatim>\<open>iterBoard\<close> returns the merge of the
  float (as it was before the advance) into the board after the per-column compaction
  of this step, and a null float. The merge into the board as it was before the
  compaction is the same board when no column has a gap left to close.
\<close>

theorem iterBoard_settles:
  assumes "onBoard b f" "collision b f"
  shows "\<exists>nb. dropFloatingTiles (map iterColumn b) (Some f) = Inr nb \<and>
     iterBoard b (Some f) = Inr (nb, None) \<and>
     ((\<forall>column\<in>set b. iterColumn column = column) \<longrightarrow> dropFloatingTiles b (Some f) = Inr nb)"
proof -
  let ?nf = "f\<lparr>float_y := float_y f + 1\<rparr>"
  have rng: "\<forall>t\<in>set (float_value f). 0 \<le> fst t + float_x f \<and> fst t + float_x f < int (length b)"
    using assms(1) by (simp add: onBoard_def list_all_iff)
  then have tot: "\<forall>t\<in>set (float_value ?nf). \<exists>v. landsOn b ?nf t = Inr v"
    by (auto intro!: landsOn_total)
  from assms(2) obtain t where t: "t \<in> set (float_value f)"
    and hit: "let column = b ! nat (fst t + float_x f); nextY = snd t + (float_y f + 1) in
          (0 \<le> nextY \<and> nextY < int (length column) \<and> column ! nat nextY \<noteq> 0)
          \<or> nextY = int (length column)"
    by (auto simp: collision_def list_ex_iff)
  from rng t have "0 \<le> fst t + float_x ?nf" "fst t + float_x ?nf < int (length b)" by auto
  from landsOn_on [OF this] hit have "landsOn b ?nf t = Inr True" by (simp add: Let_def)
  with t have "\<exists>a\<in>set (float_value ?nf). landsOn b ?nf a = Inr True" by auto
  with someE_iff [OF tot] have should: "someE (landsOn b ?nf) (float_value ?nf) = Inr True"
    by simp
  from assms(1) have "onBoard (map iterColumn b) f" by (simp add: onBoard_iterColumn)
  from dropFloatingTiles_columns [OF this]
  obtain nb where nb: "dropFloatingTiles (map iterColumn b) (Some f) = Inr nb" by blast
  have it: "iterBoard b (Some f) = Inr (nb, None)"
    using should nb by (simp add: iterBoard_def bindE_def Let_def)
  have "dropFloatingTiles b (Some f) = Inr nb" if "\<forall>column\<in>set b. iterColumn column = column"
  proof -
    from that have "map iterColumn b = b" by (simp add: map_idI)
    with nb show ?thesis by simp
  qed
  with nb it show ?thesis by blast
qed

theorem iterBoard_settles_witness:
  "onBoard [[0, 1], [1, 0]] \<lparr>float_value = [(0, 0)], float_x = 0, float_y = 0\<rparr> \<and>
   collision [[0, 1], [1, 0]] \<lparr>float_value = [(0, 0)], float_x = 0, float_y = 0\<rparr> \<and>
   dropFloatingTiles [[0, 1], [0, 1]] (Some \<lparr>float_value = [(0, 0)], float_x = 0, float_y = 0\<rparr>) =
     Inr [[1, 1], [0, 1]] \<and>
   iterBoard [[0, 1], [1, 0]] (Some \<lparr>float_value = [(0, 0)], float_x = 0, float_y = 0\<rparr>) =
     Inr ([[1, 1], [0, 1]], None)"
proof -
  let ?b = "[[0, 1], [1, 0 :: int]]"
  let ?f = "\<lparr>float_value = [(0, 0)], float_x = 0, float_y = 0\<rparr>"
  have on: "onBoard ?b ?f" by (simp add: onBoard_def)
  have co: "collision ?b ?f" by (simp add: collision_def)
  have col: "map iterColumn ?b = [[0, 1], [0, 1]]"
    by (simp add: iterColumn_def filterIndex_def Let_def)
  have drop: "dropFloatingTiles [[0, 1], [0, 1]] (Some ?f) = Inr [[1, 1], [0, 1]]"
    by (simp add: dropFloatingTiles_def cloneBoard_def bindE_def dropCell_def at_def setAt_def Let_def)
  from iterBoard_settles [OF on co]
  obtain nb where a: "dropFloatingTiles (map iterColumn ?b) (Some ?f) = Inr nb"
    and b: "iterBoard ?b (Some ?f) = Inr (nb, None)"
    by blast
  from a col drop have "nb = [[1, 1], [0, 1]]" by simp
  with b on co drop show ?thesis by simp
qed

text \<open>
  On a board with a gap the two merges differ: the second column is compacted by the
  step, and the result is not the merge into the board as it was given.
\<close>

theorem iterBoard_merge_counterexample:
  "collision [[0, 1], [1, 0]] \<lparr>float_value = [(0, 0)], float_x = 0, float_y = 0\<rparr> \<and>
   dropFloatingTiles [[0, 1], [1, 0]] (Some \<lparr>float_value = [(0, 0)], float_x = 0, float_y = 0\<rparr>) =
     Inr [[1, 1], [1, 0]] \<and>
   iterBoard [[0, 1], [1, 0]] (Some \<lparr>float_value = [(0, 0)], float_x = 0, float_y = 0\<rparr>) =
     Inr ([[1, 1], [0, 1]], None) \<and>
   iterBoard [[0, 1], [1, 0]] (Some \<lparr>float_value = [(0, 0)], float_x = 0, float_y = 0\<rparr>) \<noteq>
     Inr ([[1, 1], [1, 0]], None)"
proof -
  let ?b = "[[0, 1], [1, 0 :: int]]"
  let ?f = "\<lparr>float_value = [(0, 0)], float_x = 0, float_y = 0\<rparr>"
  have co: "collision ?b ?f" by (simp add: collision_def)
  have col: "map iterColumn ?b = [[0, 1], [0, 1]]"
    by (simp add: iterColumn_def filterIndex_def Let_def)
  have d0: "dropFloatingTiles ?b (Some ?f) = Inr [[1, 1], [1, 0]]"
    by (simp add: dropFloatingTiles_def cloneBoard_def bindE_def dropCell_def at_def setAt_def Let_def)
  have d1: "dropFloatingTiles [[0, 1], [0, 1]] (Some ?f) = Inr [[1, 1], [0, 1]]"
    by (simp add: dropFloatingTiles_def cloneBoard_def bindE_def dropCell_def at_def setAt_def Let_def)
  have it: "iterBoard ?b (Some ?f) = Inr ([[1, 1], [0, 1]], None)"
    unfolding iterBoard_def Let_def col
    by (simp add: d1 bindE_def landsOn_def at_def)
  from co d0 it show ?thesis by simp
qed

subsection \<open>New boards and steps without a collision\<close>

lemma dims_newBoard: "dims (newBoard w h) w h"
  by (simp add: dims_def newBoard_def list_all_iff)

text \<open>Without a collision the float stays afloat, one row lower, over the compacted board.\<close>

lemma iterBoard_floats:
  assumes "onBoard b f" "\<not> collision b f"
  shows "iterBoard b (Some f) = Inr (map iterColumn b, Some (f\<lparr>float_y := float_y f + 1\<rparr>))"
proof -
  let ?nf = "f\<lparr>float_y := float_y f + 1\<rparr>"
  have rng: "\<forall>t\<in>set (float_value f). 0 \<le> fst t + float_x f \<and> fst t + float_x f < int (length b)"
    using assms(1) by (simp add: onBoard_def list_all_iff)
  then have tot: "\<forall>t\<in>set (float_value ?nf). \<exists>v. landsOn b ?nf t = Inr v"
    by (auto intro!: landsOn_total)
  have "landsOn b ?nf t \<noteq> Inr True" if t: "t \<in> set (float_value f)" for t
  proof -
    from rng t have "0 \<le> fst t + float_x ?nf" "fst t + float_x ?nf < int (length b)" by auto
    from landsOn_on [OF this] assms(2) t show ?thesis
      by (auto simp: collision_def list_ex_iff Let_def)
  qed
  then have "\<not> (\<exists>a\<in>set (float_value ?nf). landsOn b ?nf a = Inr True)" by auto
  with someE_iff [OF tot] have "someE (landsOn b ?nf) (float_value ?nf) = Inr False" by simp
  then show ?thesis by (simp add: iterBoard_def bindE_def Let_def)
qed

subsection \<open>Actions and the game step\<close>

lemma isGameOver_iff: "isGameOver b \<longleftrightarrow> (\<exists>column\<in>set b. 0 \<notin> set column)"
  by (simp add: isGameOver_def list_ex_iff lastIndexOf_neg_iff)

lemma applyActions_over: "isGameOver b \<Longrightarrow> applyActions b f s = Inr (b, f, s)"
  by (simp add: applyActions_def)

lemma step_over: "isGameOver (board s) \<Longrightarrow> step u fresh page s = Inr s"
  by (simp add: step_def)

text \<open>
  C8. A board with a column without an empty cell is in the game-over state, and the
  state is absorbing: \<^verbatim>\<open>applyActions\<close> returns the board and the float it was given
  (and leaves the closure as it is), a step with or without gravity returns the closure
  unchanged, and a key press only lengthens the queue.
\<close>

theorem game_over_absorbing:
  assumes "\<exists>column\<in>set (board s). 0 \<notin> set column"
  shows "isGameOver (board s) \<and>
     (\<forall>f s'. applyActions (board s) f s' = Inr (board s, f, s')) \<and>
     (\<forall>u fresh page. step u fresh page s = Inr s) \<and>
     (\<forall>k fresh page. keydown k fresh page s = Inr (s\<lparr>userActions := userActions s @ [k]\<rparr>))"
proof -
  from assms have over: "isGameOver (board s)" by (simp add: isGameOver_iff)
  then have "isGameOver (board (s\<lparr>userActions := userActions s @ [k]\<rparr>))" for k by simp
  then have "keydown k fresh page s = Inr (s\<lparr>userActions := userActions s @ [k]\<rparr>)"
    for k fresh page
    unfolding keydown_def by (rule step_over)
  with over show ?thesis by (simp add: applyActions_over step_over)
qed

theorem game_over_absorbing_witness:
  "(\<exists>column\<in>set [[1, 1], [1, 1 :: int]]. 0 \<notin> set column) \<and>
   isGameOver [[1, 1], [1, 1]] \<and>
   applyActions [[1, 1], [1, 1]] (Some \<lparr>float_value = [(0, 0)], float_x = 0, float_y = 0\<rparr>)
     \<lparr>userActions = [ArrowLeft], boardHighlight = [[0, 0], [0, 0]], board = [[1, 1], [1, 1]],
      float = Some \<lparr>float_value = [(0, 0)], float_x = 0, float_y = 0\<rparr>\<rparr> =
     Inr ([[1, 1], [1, 1]], Some \<lparr>float_value = [(0, 0)], float_x = 0, float_y = 0\<rparr>,
       \<lparr>userActions = [ArrowLeft], boardHighlight = [[0, 0], [0, 0]], board = [[1, 1], [1, 1]],
        float = Some \<lparr>float_value = [(0, 0)], float_x = 0, float_y = 0\<rparr>\<rparr>) \<and>
   step False \<lparr>float_value = [(0, 0), (1, 0)], float_x = 0, float_y = 0\<rparr> True
     \<lparr>userActions = [ArrowLeft], boardHighlight = [[0, 0], [0, 0]], board = [[1, 1], [1, 1]],
      float = Some \<lparr>float_value = [(0, 0)], float_x = 0, float_y = 0\<rparr>\<rparr> =
     Inr \<lparr>userActions = [ArrowLeft], boardHighlight = [[0, 0], [0, 0]], board = [[1, 1], [1, 1]],
      float = Some \<lparr>float_value = [(0, 0)], float_x = 0, float_y = 0\<rparr>\<rparr>"
proof -
  let ?f = "\<lparr>float_value = [(0, 0)], float_x = 0, float_y = 0\<rparr>"
  let ?s = "\<lparr>userActions = [ArrowLeft], boardHighlight = [[0, 0], [0, 0]], board = [[1, 1], [1, 1]],
      float = Some ?f\<rparr>"
  have h: "\<exists>column\<in>set (board ?s). 0 \<notin> set column" by simp
  note t = game_over_absorbing [OF h]
  from t have a: "isGameOver [[1, 1], [1, 1]]" by simp
  from t have "applyActions (board ?s) (Some ?f) ?s = Inr (board ?s, Some ?f, ?s)" by blast
  then have b: "applyActions [[1, 1], [1, 1]] (Some ?f) ?s = Inr ([[1, 1], [1, 1]], Some ?f, ?s)" by simp
  from t have c: "step False \<lparr>float_value = [(0, 0), (1, 0)], float_x = 0, float_y = 0\<rparr> True ?s = Inr ?s"
    by blast
  from h a b c show ?thesis by simp
qed

text \<open>
  C7 (amended). On a board that is not game over (and has a column), \<^verbatim>\<open>applyActions\<close>
  with a null float returns the board and the null float and leaves the closure as it
  is: the queued actions have no effect, and the queue is not emptied.
\<close>

theorem applyActions_null_float:
  assumes "\<not> isGameOver b" "b \<noteq> []"
  shows "applyActions b None s = Inr (b, None, s)"
  using assms by (cases b) (simp_all add: applyActions_def cloneBoard_def)

theorem applyActions_null_float_witness:
  "\<not> isGameOver [[0, 1]] \<and> [[0, 1 :: int]] \<noteq> [] \<and>
   applyActions [[0, 1]] None
     \<lparr>userActions = [ArrowLeft, ArrowDown], boardHighlight = [[0, 0]], board = [[0, 1]], float = None\<rparr> =
   Inr ([[0, 1]], None,
     \<lparr>userActions = [ArrowLeft, ArrowDown], boardHighlight = [[0, 0]], board = [[0, 1]], float = None\<rparr>)"
proof -
  have g: "\<not> isGameOver [[0, 1]]" by (simp add: isGameOver_def Let_def)
  have n: "[[0, 1 :: int]] \<noteq> []" by simp
  from applyActions_null_float [OF g n] g n show ?thesis by simp
qed

text \<open>
  With a null float the queue is not drained: the two queued actions are still there
  after the call.
\<close>

theorem applyActions_drain_counterexample:
  "\<not> isGameOver [[0, 1]] \<and>
   applyActions [[0, 1]] None
     \<lparr>userActions = [ArrowLeft, ArrowDown], boardHighlight = [[0, 0]], board = [[0, 1]], float = None\<rparr> =
   Inr ([[0, 1]], None,
     \<lparr>userActions = [ArrowLeft, ArrowDown], boardHighlight = [[0, 0]], board = [[0, 1]], float = None\<rparr>) \<and>
   userActions
     \<lparr>userActions = [ArrowLeft, ArrowDown], boardHighlight = [[0, 0]], board = [[0, 1]], float = None\<rparr> \<noteq> []"
  by (simp add: applyActions_def cloneBoard_def isGameOver_def Let_def)

lemma getTileGroupWidth_span:
  "v \<noteq> [] \<Longrightarrow> getTileGroupWidth v = Some (Max (set (map fst v)) - Min (set (map fst v)))"
  by (simp add: getTileGroupWidth_def Let_def mathMax_Max mathMin_Min)

lemma getTileGroupWidth_Nil: "getTileGroupWidth [] = None"
  by (simp add: getTileGroupWidth_def mathMax_def mathMin_def)

lemma applyActions_loop:
  assumes "\<not> isGameOver b" "b \<noteq> []"
  shows "applyActions b (Some f) s = actionsFrom b f s (userActions s) (b, Some f, boardHighlight s)"
proof -
  from assms(2) obtain c0 cs where b: "b = c0 # cs" by (cases b) auto
  show ?thesis
    using assms(1) unfolding b
    by (simp add: applyActions_def actionsFrom_def cloneBoard_def Let_def)
qed

lemma forEachE_append:
  "forEachE g (xs @ ys) st = bindE (forEachE g xs st) (forEachE g ys)"
  by (induction xs arbitrary: st) (simp_all add: bindE_def split: sum.splits)

lemma forEachE_null_float:
  "forEachE (applyAction W H w) q (b, None, hl) = Inr (b, None, hl)"
  by (induction q) (simp_all add: applyAction_def)

lemma applyAction_keeps:
  assumes "applyAction W H w (b, Some f, hl) a = Inr (b1, Some g, hl1)"
  shows "b1 = b \<and> hl1 = hl \<and> (a \<noteq> ArrowUp \<longrightarrow> float_value g = float_value f)"
  using assms
  by (cases a) (auto simp: applyAction_def bindE_def Let_def split: sum.splits)

lemma forEachE_keeps:
  assumes "forEachE (applyAction W H w) pre (b, Some f, hl) = Inr (b1, Some g, hl1)"
  shows "b1 = b \<and> hl1 = hl \<and> (ArrowUp \<notin> set pre \<longrightarrow> float_value g = float_value f)"
  using assms
proof (induction pre arbitrary: f)
  case Nil
  then show ?case by simp
next
  case (Cons a pre)
  from Cons.prems obtain b2 fo2 hl2 where
    s: "applyAction W H w (b, Some f, hl) a = Inr (b2, fo2, hl2)"
    and r: "forEachE (applyAction W H w) pre (b2, fo2, hl2) = Inr (b1, Some g, hl1)"
    by (auto split: sum.splits)
  show ?case
  proof (cases fo2)
    case None
    with r show ?thesis by (simp add: forEachE_null_float)
  next
    case (Some f2)
    from applyAction_keeps [OF s [unfolded Some]]
    have k: "b2 = b" "hl2 = hl" "a \<noteq> ArrowUp \<longrightarrow> float_value f2 = float_value f" by auto
    from r have "forEachE (applyAction W H w) pre (b, Some f2, hl) = Inr (b1, Some g, hl1)"
      by (simp add: Some k)
    from Cons.IH [OF this] k(3) show ?thesis by auto
  qed
qed

text \<open>
  C5. A queued move at any place of the queue, when the actions before it have left a
  float \<open>g\<close>: move-left sets \<^verbatim>\<open>float.x\<close> to \<open>max (x - 1) 0\<close>, so 0 stays 0, and
  move-right sets it to \<open>min (x + 1) (boardWidth - floatWidth - 1)\<close>; the board and the
  highlight are as they were, and the loop goes on with the rest of the queue. The
  \<open>floatWidth\<close> is the largest minus the smallest x of the group \<^verbatim>\<open>applyActions\<close> was
  given: line 53 computes it once, before the loop. With no rotate before the move the
  float still has that group. After a rotate it has another one, whose span the
  rotate branch (lines 67 to 69) does compute for its own clamp, and the move-right can
  take the float off the board.
\<close>

theorem move_left_right:
  assumes "\<not> isGameOver b" "b \<noteq> []" "userActions s = pre @ a # post"
    and "forEachE (applyAction (int (length b)) (int (length (hd b)))
                    (getTileGroupWidth (float_value f))) pre (b, Some f, boardHighlight s) =
         Inr (b1, Some g, hl1)"
  shows "b1 = b \<and> hl1 = boardHighlight s \<and>
     (ArrowUp \<notin> set pre \<longrightarrow> float_value g = float_value f) \<and>
     (a = ArrowLeft \<longrightarrow>
        applyActions b (Some f) s =
          actionsFrom b f s post
            (b, Some (g\<lparr>float_x := max (float_x g - 1) 0\<rparr>), boardHighlight s)) \<and>
     (a = ArrowLeft \<and> float_x g = 0 \<longrightarrow>
        applyActions b (Some f) s = actionsFrom b f s post (b, Some g, boardHighlight s)) \<and>
     (a = ArrowRight \<and> float_value f \<noteq> [] \<longrightarrow>
        applyActions b (Some f) s =
          actionsFrom b f s post
            (b, Some (g\<lparr>float_x :=
               min (float_x g + 1)
                   (int (length b)
                    - (Max (set (map fst (float_value f))) - Min (set (map fst (float_value f))))
                    - 1)\<rparr>),
             boardHighlight s))"
proof -
  let ?W = "int (length b)" and ?H = "int (length (hd b))"
  let ?w = "getTileGroupWidth (float_value f)"
  from forEachE_keeps [OF assms(4)]
  have k: "b1 = b" "hl1 = boardHighlight s" "ArrowUp \<notin> set pre \<longrightarrow> float_value g = float_value f"
    by auto
  have run: "applyActions b (Some f) s =
      bindE (applyAction ?W ?H ?w (b, Some g, boardHighlight s) a) (actionsFrom b f s post)"
  proof -
    have "applyActions b (Some f) s = actionsFrom b f s (pre @ a # post) (b, Some f, boardHighlight s)"
      using applyActions_loop [OF assms(1,2)] assms(3) by simp
    also have "\<dots> = bindE (applyAction ?W ?H ?w (b, Some g, boardHighlight s) a) (actionsFrom b f s post)"
      using assms(4) unfolding k
      by (simp add: actionsFrom_def forEachE_append bindE_def split: sum.splits)
    finally show ?thesis .
  qed
  have left: "applyActions b (Some f) s =
      actionsFrom b f s post (b, Some (g\<lparr>float_x := max (float_x g - 1) 0\<rparr>), boardHighlight s)"
    if "a = ArrowLeft"
    using that by (simp add: run applyAction_def bindE_def)
  have left0: "applyActions b (Some f) s = actionsFrom b f s post (b, Some g, boardHighlight s)"
    if "a = ArrowLeft \<and> float_x g = 0"
  proof -
    from that have eq: "g\<lparr>float_x := max (float_x g - 1) 0\<rparr> = g" by simp
    from that have "a = ArrowLeft" by simp
    from left [OF this] show ?thesis unfolding eq .
  qed
  have right: "applyActions b (Some f) s =
      actionsFrom b f s post
        (b, Some (g\<lparr>float_x :=
           min (float_x g + 1)
               (int (length b)
                - (Max (set (map fst (float_value f))) - Min (set (map fst (float_value f))))
                - 1)\<rparr>),
         boardHighlight s)"
    if "a = ArrowRight \<and> float_value f \<noteq> []"
    using that by (simp add: run applyAction_def bindE_def minLimit_def getTileGroupWidth_span)
  from k left left0 right show ?thesis by blast
qed

text \<open>
  The queue \<^verbatim>\<open>[ArrowUp, ArrowRight]\<close> on a board of five columns: the upright group of
  span 0 at \<open>x = 2\<close> is turned into one of span 2, which the rotate keeps at \<open>x = 2\<close>;
  the move-right then clamps with the span 0 and moves it to \<open>x = 3\<close>, where its last
  cell has column 5, while the bound for the span 2 is 2.
\<close>

theorem move_left_right_witness:
  "\<not> isGameOver [[0, 0, 0, 0], [0, 0, 0, 0], [0, 0, 0, 0], [0, 0, 0, 0], [0, 0, 0, 0]] \<and>
   applyActions [[0, 0, 0, 0], [0, 0, 0, 0], [0, 0, 0, 0], [0, 0, 0, 0], [0, 0, 0, 0]]
     (Some \<lparr>float_value = [(0, 0), (0, 1), (0, 2)], float_x = 2, float_y = 0\<rparr>)
     \<lparr>userActions = [ArrowUp, ArrowRight], boardHighlight = [], board = [], float = None\<rparr> =
   Inr ([[0, 0, 0, 0], [0, 0, 0, 0], [0, 0, 0, 0], [0, 0, 0, 0], [0, 0, 0, 0]],
        Some \<lparr>float_value = [(2, 0), (1, 0), (0, 0)], float_x = 3, float_y = 0\<rparr>,
        \<lparr>userActions = [], boardHighlight = [], board = [], float = None\<rparr>) \<and>
   getTileGroupWidth [(2, 0), (1, 0), (0, 0)] = Some 2 \<and>
   min (2 + 1) (5 - 2 - 1) = (2 :: int) \<and>
   \<not> onBoard [[0, 0, 0, 0], [0, 0, 0, 0], [0, 0, 0, 0], [0, 0, 0, 0], [0, 0, 0, 0]]
         \<lparr>float_value = [(2, 0), (1, 0), (0, 0)], float_x = 3, float_y = 0\<rparr>"
proof -
  let ?b = "[[0, 0, 0, 0], [0, 0, 0, 0], [0, 0, 0, 0], [0, 0, 0, 0], [0, 0, 0, 0 :: int]]"
  let ?f = "\<lparr>float_value = [(0, 0), (0, 1), (0, 2)], float_x = 2, float_y = 0\<rparr>"
  let ?g = "\<lparr>float_value = [(2, 0), (1, 0), (0, 0)], float_x = 2, float_y = 0\<rparr>"
  let ?s = "\<lparr>userActions = [ArrowUp, ArrowRight], boardHighlight = [], board = [], float = None\<rparr>"
  have go: "\<not> isGameOver ?b" by (simp add: isGameOver_def Let_def)
  have ne: "?b \<noteq> []" by simp
  have q: "userActions ?s = [ArrowUp] @ ArrowRight # []" by simp
  have rot: "rotateTileGroup [(0, 0), (0, 1), (0, 2)] = [(2, 0), (1, 0), (0, 0)]"
    by (simp add: rotateTileGroup_def normaliseTileGroup_def mathMin_def)
  have w: "getTileGroupWidth [(2, 0), (1, 0), (0, 0)] = Some 2"
    by (simp add: getTileGroupWidth_def mathMax_def mathMin_def)
  have h: "getTileGroupHeight [(2, 0), (1, 0), (0, 0)] = Some 0"
    by (simp add: getTileGroupHeight_def mathMax_def mathMin_def)
  have pre: "forEachE (applyAction (int (length ?b)) (int (length (hd ?b)))
                    (getTileGroupWidth (float_value ?f))) [ArrowUp] (?b, Some ?f, boardHighlight ?s) =
         Inr (?b, Some ?g, [])"
    by (simp add: applyAction_def Let_def rot w h minLimit_def)
  from move_left_right [OF go ne q pre]
  have "ArrowRight = ArrowRight \<and> float_value ?f \<noteq> [] \<longrightarrow>
        applyActions ?b (Some ?f) ?s =
          actionsFrom ?b ?f ?s []
            (?b, Some (?g\<lparr>float_x :=
               min (float_x ?g + 1)
                   (int (length ?b)
                    - (Max (set (map fst (float_value ?f))) - Min (set (map fst (float_value ?f))))
                    - 1)\<rparr>),
             boardHighlight ?s)"
    by blast
  then have "applyActions ?b (Some ?f) ?s =
      Inr (?b, Some \<lparr>float_value = [(2, 0), (1, 0), (0, 0)], float_x = 3, float_y = 0\<rparr>,
           \<lparr>userActions = [], boardHighlight = [], board = [], float = None\<rparr>)"
    by (simp add: actionsFrom_def bindE_def)
  moreover have "\<not> onBoard ?b \<lparr>float_value = [(2, 0), (1, 0), (0, 0)], float_x = 3, float_y = 0\<rparr>"
    by (simp add: onBoard_def)
  ultimately show ?thesis using go w by simp
qed

end
